theory Spec2Isabelle
  imports Complex_Main "HOL-Library.Log_Nat"
begin

section \<open>Strings\<close>

text \<open>
  Python strings are modelled as \<open>string\<close>, read as sequences of code points below 256.
  \<open>sub in s\<close> is the contiguous-substring test.
\<close>

fun starts_with :: "string \<Rightarrow> string \<Rightarrow> bool" where
  "starts_with [] s = True"
| "starts_with (p # ps) [] = False"
| "starts_with (p # ps) (c # cs) = (p = c \<and> starts_with ps cs)"

fun contains :: "string \<Rightarrow> string \<Rightarrow> bool" where
  "contains sub [] = (sub = [])"
| "contains sub (c # cs) = (starts_with sub (c # cs) \<or> contains sub cs)"

definition is_ascii_digit :: "char \<Rightarrow> bool" where
  "is_ascii_digit c = (48 \<le> (of_char c :: nat) \<and> (of_char c :: nat) \<le> 57)"

definition isdigit :: "char \<Rightarrow> bool" where
  \<comment> \<open>\<open>str.isdigit\<close> on one character: below 256 these are the ASCII digits and the
      superscripts U+00B2, U+00B3, U+00B9.\<close>
  "isdigit c = (is_ascii_digit c \<or> (of_char c :: nat) \<in> {178, 179, 185})"

definition digit_val :: "char \<Rightarrow> nat" where
  "digit_val c = (of_char c :: nat) - 48"

definition digits_value :: "string \<Rightarrow> nat" where
  "digits_value ds = foldl (\<lambda>a c. 10 * a + digit_val c) 0 ds"

text \<open>
  Python's \<open>float\<close> is an IEEE 754 binary64 number. Only the values that \<open>float(s)\<close> can
  give for a string of digits and dots are needed: the non-negative finite doubles, kept
  as the rationals they are, and positive infinity. \<open>to_double\<close> rounds a non-negative
  rational to the nearest double, ties to the even significand: the spacing of the doubles
  around \<open>x\<close> is \<open>2 ^ (binade x - 52)\<close>, and \<open>2 ^ -1074\<close> below the normal range; a result
  of \<open>2 ^ 1024\<close> or more is the overflow to infinity.
\<close>

datatype double = Finite rat | Infinity

definition pow2 :: "int \<Rightarrow> rat" where
  "pow2 e = (if 0 \<le> e then 2 ^ nat e else 1 / 2 ^ nat (- e))"

definition round_half_even :: "rat \<Rightarrow> int" where
  "round_half_even x =
     (let f = \<lfloor>x\<rfloor>; d = x - of_int f
      in if d < 1 / 2 then f else if 1 / 2 < d then f + 1 else if even f then f else f + 1)"

definition binade :: "rat \<Rightarrow> int" where
  \<comment> \<open>for \<open>x > 0\<close>, the \<open>e\<close> with \<open>2 ^ e \<le> x < 2 ^ (e + 1)\<close>\<close>
  "binade x =
     (case quotient_of x of (p, q) \<Rightarrow>
        (let k = bitlen p - bitlen q in if pow2 k \<le> x then k else k - 1))"

definition to_double :: "rat \<Rightarrow> double" where
  "to_double x =
     (if x \<le> 0 then Finite 0
      else let q = max (binade x - 52) (- 1074);
               y = of_int (round_half_even (x / pow2 q)) * pow2 q
           in if pow2 1024 \<le> y then Infinity else Finite y)"

definition exceeds :: "double \<Rightarrow> rat \<Rightarrow> bool" where
  \<comment> \<open>\<open>v > limit\<close> for a finite limit\<close>
  "exceeds v limit = (case v of Infinity \<Rightarrow> True | Finite x \<Rightarrow> limit < x)"

definition decimal_value :: "string \<Rightarrow> string \<Rightarrow> rat" where
  \<comment> \<open>the number written with integer digits \<open>ip\<close> and fraction digits \<open>fp\<close>\<close>
  "decimal_value ip fp = of_nat (digits_value ip) + of_nat (digits_value fp) / 10 ^ length fp"

definition float_of_str :: "string \<Rightarrow> double option" where
  \<comment> \<open>\<open>float(s)\<close> for a string of \<open>isdigit\<close> characters and dots, \<open>None\<close> for ValueError:
      at most one dot, at least one digit, ASCII digits only; the value is the decimal
      rounded to a double.\<close>
  "float_of_str s =
     (if \<not> list_all (\<lambda>c. is_ascii_digit c \<or> c = CHR ''.'') s then None
      else let ip = takeWhile (\<lambda>c. c \<noteq> CHR ''.'') s;
               rest = dropWhile (\<lambda>c. c \<noteq> CHR ''.'') s
           in case rest of
                [] \<Rightarrow> if ip = [] then None else Some (to_double (decimal_value ip []))
              | _ # fp \<Rightarrow>
                  if CHR ''.'' \<in> set fp then None
                  else if ip = [] \<and> fp = [] then None
                  else Some (to_double (decimal_value ip fp)))"

section \<open>Downloader.validate\_file\_size\<close>

datatype size_error = DownloadFileTooLargeError string rat

definition size_str :: "string \<Rightarrow> string" where
  "size_str file_size = filter (\<lambda>c. isdigit c \<or> c = CHR ''.'') file_size"

definition validate_file_size :: "rat \<Rightarrow> string \<Rightarrow> size_error + bool" where
  \<comment> \<open>the first argument is \<open>settings.max_file_size_mb\<close>, a finite float\<close>
  "validate_file_size max_file_size_mb file_size =
     (if contains ''GB'' file_size
      then Inl (DownloadFileTooLargeError file_size max_file_size_mb)
      else if contains ''MB'' file_size
      then (case float_of_str (size_str file_size) of
              None \<Rightarrow> Inr True
            | Some sz \<Rightarrow>
                if exceeds sz max_file_size_mb
                then Inl (DownloadFileTooLargeError file_size max_file_size_mb)
                else Inr True)
      else Inr True)"

section \<open>DatoidCrawler.get\_parsed\_file\_info\<close>

datatype py_error = IndexError | AttributeError

fun split_on :: "char \<Rightarrow> string \<Rightarrow> string list" where
  \<comment> \<open>\<open>s.split(sep)\<close> for a one-character separator: always at least one field.\<close>
  "split_on sep [] = [[]]"
| "split_on sep (c # cs) =
     (if c = sep then [] # split_on sep cs
      else (case split_on sep cs of
              [] \<Rightarrow> [[c]]
            | f # fs \<Rightarrow> (c # f) # fs))"

definition isspace :: "char \<Rightarrow> bool" where
  \<comment> \<open>The whitespace \<open>str.strip()\<close> removes, below code point 256.\<close>
  "isspace c =
     (let n = (of_char c :: nat)
      in (9 \<le> n \<and> n \<le> 13) \<or> (28 \<le> n \<and> n \<le> 32) \<or> n = 133 \<or> n = 160)"

definition strip :: "string \<Rightarrow> string" where
  "strip s = rev (dropWhile isspace (rev (dropWhile isspace s)))"

definition py_index :: "'a list \<Rightarrow> int \<Rightarrow> py_error + 'a" where
  \<comment> \<open>\<open>xs[i]\<close>: \<open>xs[-k]\<close> is the \<open>k\<close>-th element from the end; IndexError outside
      \<open>-len(xs) .. len(xs) - 1\<close>.\<close>
  "py_index xs i =
     (if 0 \<le> i \<and> i < int (length xs) then Inr (xs ! nat i)
      else if i < 0 \<and> - int (length xs) \<le> i then Inr (xs ! (length xs - nat (- i)))
      else Inl IndexError)"

definition cleared_data :: "string \<Rightarrow> string list" where
  "cleared_data file_info =
     map strip (filter (\<lambda>item. strip item \<noteq> []) (split_on CHR 0x0A file_info))"

definition parse_file_info :: "string option \<Rightarrow> py_error + (string \<times> string \<times> string)" where
  \<comment> \<open>The body of the \<open>try\<close>; \<open>None\<close> is a missing attribute, on which \<open>.split\<close> raises.\<close>
  "parse_file_info file_info =
     (case file_info of
        None \<Rightarrow> Inl AttributeError
      | Some text \<Rightarrow>
          (let cleared = cleared_data text
           in case py_index cleared 0 of
                Inl e \<Rightarrow> Inl e
              | Inr extension \<Rightarrow>
                  (case py_index cleared (- 2) of
                     Inl e \<Rightarrow> Inl e
                   | Inr sz \<Rightarrow>
                       (case py_index cleared (- 1) of
                          Inl e \<Rightarrow> Inl e
                        | Inr title \<Rightarrow> Inr (title, extension, sz)))))"

definition get_parsed_file_info :: "string option \<Rightarrow> string \<times> string \<times> string" where
  "get_parsed_file_info file_info =
     (case parse_file_info file_info of
        Inr r \<Rightarrow> r
      | Inl e \<Rightarrow> (''Unknown'', ''Unknown'', ''Unknown''))"

section \<open>testFile.analyseFile and the polling loop of worker.analyse\_sample\<close>

datatype http_exn = Timeout | RequestException | OtherException

record analysis =
  status :: string
  sha256 :: string
  harmless :: int
  malicious :: int
  undetected :: int
  results :: "(string \<times> string option \<times> string option) list"

datatype json_body =
    NotJson \<comment> \<open>\<open>response.json()\<close> raises\<close>
  | Malformed \<comment> \<open>a key of the expected shape is missing (KeyError, TypeError)\<close>
  | Analysis analysis

datatype http_result = Raises http_exn | Response int json_body

datatype task_error =
    VirusTotalAPIError | VirusTotalRateLimitError | TimeoutError | ValueError
  | OverflowError | ZeroDivisionError
  | BackendError \<comment> \<open>what \<open>self.update_state\<close> raises when the result backend fails\<close>

definition raise_for_status :: "int \<Rightarrow> bool" where
  \<comment> \<open>whether \<open>response.raise_for_status()\<close> raises HTTPError\<close>
  "raise_for_status code = (400 \<le> code \<and> code < 600)"

definition analyseFile :: "http_result \<Rightarrow> task_error + analysis option" where
  \<comment> \<open>One status check. Saving a completed verdict to the database is wrapped in its own
      \<open>try\<close> whose handler only logs, so it changes neither the result nor the error.\<close>
  "analyseFile r =
     (case r of
        Raises Timeout \<Rightarrow> Inr None
      | Raises RequestException \<Rightarrow> Inl VirusTotalAPIError
      | Raises OtherException \<Rightarrow> Inl VirusTotalAPIError
      | Response code body \<Rightarrow>
          if code = 429 then Inr None
          else if raise_for_status code then Inl VirusTotalAPIError
          else (case body of
                  NotJson \<Rightarrow> Inl VirusTotalAPIError
                | Malformed \<Rightarrow> Inl VirusTotalAPIError
                | Analysis data \<Rightarrow>
                    if status data \<noteq> ''completed'' then Inr None else Inr (Some data)))"

record task_env =
  status_check :: "nat \<Rightarrow> http_result"
    \<comment> \<open>what the \<open>k\<close>-th status request of the task meets\<close>
  update_state_raises :: "nat \<Rightarrow> bool"
    \<comment> \<open>whether the \<open>k\<close>-th \<open>self.update_state\<close> call of the task raises\<close>
  sleep_max :: int
    \<comment> \<open>the longest length \<open>time.sleep\<close> takes on the platform\<close>

definition sleep :: "int \<Rightarrow> int \<Rightarrow> task_error + unit" where
  \<comment> \<open>\<open>time.sleep(secs)\<close>: ValueError below zero, OverflowError above what the platform's
      time type holds (the first argument)\<close>
  "sleep longest secs =
     (if secs < 0 then Inl ValueError
      else if longest < secs then Inl OverflowError
      else Inr ())"

function poll ::
  "task_env \<Rightarrow> int \<Rightarrow> int \<Rightarrow> int \<Rightarrow> nat \<Rightarrow> nat \<Rightarrow>
     (task_error + analysis option) \<times> nat \<times> nat" where
  \<comment> \<open>\<open>while not data and attempts < max_attempts\<close>, entered with \<open>data = None\<close>.
      \<open>calls\<close> counts the status checks issued and \<open>reports\<close> the \<open>update_state\<close> calls made
      so far; both are returned with the loop's outcome.\<close>
  "poll env interval max_attempts attempts calls reports =
     (if attempts < max_attempts
      then (case analyseFile (status_check env calls) of
              Inl e \<Rightarrow> (Inl e, Suc calls, reports)
            | Inr (Some data) \<Rightarrow> (Inr (Some data), Suc calls, reports)
            | Inr None \<Rightarrow>
                if update_state_raises env reports then (Inl BackendError, Suc calls, Suc reports)
                else (case sleep (sleep_max env) interval of
                        Inl e \<Rightarrow> (Inl e, Suc calls, Suc reports)
                      | Inr _ \<Rightarrow>
                          poll env interval max_attempts (attempts + 1) (Suc calls)
                            (Suc reports)))
      else (Inr None, calls, reports))"
  by pat_completeness auto
termination
  by (relation "measure (\<lambda>(env, interval, max_attempts, attempts, calls, reports).
                  nat (max_attempts - attempts))") auto

definition analyse_sample ::
  "(task_error + string) \<Rightarrow> task_env \<Rightarrow> int \<Rightarrow> int \<Rightarrow>
     (task_error + analysis) \<times> nat" where
  \<comment> \<open>\<open>upload\<close> is what \<open>testFile\<close> did; the result pairs the task's outcome with the
      number of status checks issued. The task reports its state before the upload, after
      it, in the loop and after a verdict; none of these calls is guarded.\<close>
  "analyse_sample upload env vt_max_wait_time vt_analysis_check_interval =
     (if update_state_raises env 0 then (Inl BackendError, 0)
      else case upload of
        Inl e \<Rightarrow> (Inl e, 0)
      | Inr test_id \<Rightarrow>
          if update_state_raises env 1 then (Inl BackendError, 0)
          else if vt_analysis_check_interval = 0 then (Inl ZeroDivisionError, 0)
          else (let max_attempts = vt_max_wait_time div vt_analysis_check_interval
                in case poll env vt_analysis_check_interval max_attempts 0 0 2 of
                     (Inl e, n, r) \<Rightarrow> (Inl e, n)
                   | (Inr None, n, r) \<Rightarrow> (Inl TimeoutError, n)
                   | (Inr (Some data), n, r) \<Rightarrow>
                       if update_state_raises env r then (Inl BackendError, n)
                       else (Inr data, n)))"

definition queued :: analysis where
  "queued = \<lparr>status = ''queued'', sha256 = ''ab12'', harmless = 0, malicious = 0,
             undetected = 0, results = []\<rparr>"

definition never_ready :: task_env where
  \<comment> \<open>every status request times out; reports and sleeps go through\<close>
  "never_ready =
     \<lparr>status_check = (\<lambda>k. Raises Timeout), update_state_raises = (\<lambda>k. False),
      sleep_max = 9223372036\<rparr>"

definition backend_down_in_loop :: task_env where
  \<comment> \<open>the service answers 429; the third \<open>update_state\<close> call, the first in the loop,
      raises\<close>
  "backend_down_in_loop =
     \<lparr>status_check = (\<lambda>k. Response 429 NotJson), update_state_raises = (\<lambda>k. k = 2),
      sleep_max = 9223372036\<rparr>"

definition not_modified_queued :: task_env where
  \<comment> \<open>every status request is answered 304 with a body that reports a queued analysis\<close>
  "not_modified_queued =
     \<lparr>status_check = (\<lambda>k. Response 304 (Analysis queued)),
      update_state_raises = (\<lambda>k. False), sleep_max = 9223372036\<rparr>"

definition rate_limited_then_500 :: task_env where
  "rate_limited_then_500 =
     \<lparr>status_check = (\<lambda>k. if k < 2 then Response 429 NotJson else Response 500 NotJson),
      update_state_raises = (\<lambda>k. False), sleep_max = 9223372036\<rparr>"

section \<open>dbManager: ConnectionPool.get\_connection and DBManager.\_get\_or\_create\<close>

datatype pyodbc_error = IntegrityError | OperationalError

datatype db_exception = DatabaseConnectionError | DatabaseInsertError | DatabaseQueryError

datatype db_exn = Pyodbc pyodbc_error | App db_exception

text \<open>
  Modelled from the spec: the relational store and its schema are not part of the source.
  A lookup table is its rows (identifier, lookup value) in insertion order, the next
  identity value, and whether the lookup column carries the unique constraint the spec
  assumes.
\<close>

record lookup_table =
  rows :: "(int \<times> string) list"
  next_id :: int
  unique_col :: bool

definition select_id :: "lookup_table \<Rightarrow> string \<Rightarrow> int option" where
  \<comment> \<open>\<open>SELECT {table}ID FROM {table} WHERE {column} = ?\<close> followed by \<open>fetchone()\<close>\<close>
  "select_id t v = map_option fst (find (\<lambda>r. snd r = v) (rows t))"

definition insert_row :: "lookup_table \<Rightarrow> string \<Rightarrow> pyodbc_error + lookup_table" where
  \<comment> \<open>\<open>INSERT INTO {table} ({column}) VALUES (?)\<close> and \<open>commit()\<close>\<close>
  "insert_row t v =
     (if unique_col t \<and> v \<in> snd ` set (rows t) then Inl IntegrityError
      else Inr (t\<lparr>rows := rows t @ [(next_id t, v)], next_id := next_id t + 1\<rparr>))"

record db_env =
  connect_error :: "pyodbc_error option"
    \<comment> \<open>\<open>pyodbc.connect\<close> raising when the pool opens a connection\<close>
  before_insert :: "lookup_table \<Rightarrow> lookup_table"
    \<comment> \<open>what other connections commit between this call's SELECT and its INSERT\<close>
  before_reselect :: "lookup_table \<Rightarrow> lookup_table"
    \<comment> \<open>what other connections commit between the INSERT and the second SELECT\<close>

definition get_or_create_body ::
  "lookup_table \<Rightarrow> db_env \<Rightarrow> string \<Rightarrow> (db_exn + int) \<times> lookup_table" where
  \<comment> \<open>the body of \<open>with self.connection_pool.get_connection() as conn\<close>\<close>
  "get_or_create_body t env v =
     (case select_id t v of
        Some row_id \<Rightarrow> (Inr row_id, t)
      | None \<Rightarrow>
          (let t1 = before_insert env t
           in case insert_row t1 v of
                Inl e \<Rightarrow> (Inl (Pyodbc e), t1)
              | Inr t2 \<Rightarrow>
                  (let t3 = before_reselect env t2
                   in case select_id t3 v of
                        Some new_id \<Rightarrow> (Inr new_id, t3)
                      | None \<Rightarrow> (Inl (App DatabaseInsertError), t3))))"

definition get_connection ::
  "db_env \<Rightarrow> lookup_table \<Rightarrow> (lookup_table \<Rightarrow> (db_exn + 'a) \<times> lookup_table) \<Rightarrow>
     (db_exn + 'a) \<times> lookup_table" where
  \<comment> \<open>The context manager: a \<open>pyodbc.Error\<close> from \<open>connect\<close> or thrown out of the
      \<open>with\<close> body reaches its \<open>except pyodbc.Error\<close> and leaves as
      DatabaseConnectionError; other exceptions pass through.\<close>
  "get_connection env t body =
     (case connect_error env of
        Some e \<Rightarrow> (Inl (App DatabaseConnectionError), t)
      | None \<Rightarrow>
          (case body t of
             (Inl (Pyodbc e), t') \<Rightarrow> (Inl (App DatabaseConnectionError), t')
           | (r, t') \<Rightarrow> (r, t')))"

definition get_or_create ::
  "db_env \<Rightarrow> lookup_table \<Rightarrow> string \<Rightarrow> (db_exn + int) \<times> lookup_table" where
  \<comment> \<open>\<open>_get_or_create\<close>: the \<open>with\<close> block under \<open>except pyodbc.Error\<close>\<close>
  "get_or_create env t v =
     (case get_connection env t (\<lambda>t. get_or_create_body t env v) of
        (Inl (Pyodbc e), t') \<Rightarrow> (Inl (App DatabaseQueryError), t')
      | (r, t') \<Rightarrow> (r, t'))"

definition quiet :: db_env where
  \<comment> \<open>a connection that opens, and no other connection writing meanwhile\<close>
  "quiet = \<lparr>connect_error = None, before_insert = (\<lambda>t. t), before_reselect = (\<lambda>t. t)\<rparr>"

definition rows_for :: "lookup_table \<Rightarrow> string \<Rightarrow> nat" where
  "rows_for t v = length (filter (\<lambda>r. snd r = v) (rows t))"

definition racing_insert :: "string \<Rightarrow> lookup_table \<Rightarrow> lookup_table" where
  \<comment> \<open>another worker inserting the same value first\<close>
  "racing_insert v t = (case insert_row t v of Inl e \<Rightarrow> t | Inr t' \<Rightarrow> t')"

section \<open>Downloader: file names, the unique archive path, download\_file\<close>

text \<open>
  Exceptions carry their class and their text. The classes are the ones the handlers of
  \<open>download_file\<close> tell apart; all of them derive from \<open>Exception\<close>. In Python
  \<open>requests.exceptions.Timeout\<close> derives from \<open>RequestException\<close>, which derives from
  \<open>IOError\<close>, an alias of \<open>OSError\<close>.
\<close>

datatype exn_class =
  TimeoutExc | RequestExc | OSErrorExc | BadZipFileExc | DownloadIOErrorExc | OtherExc

datatype exn = Exn exn_class string

fun cls :: "exn \<Rightarrow> exn_class" where
  "cls (Exn c s) = c"

fun str_of :: "exn \<Rightarrow> string" where
  "str_of (Exn c s) = s"

definition is_Timeout :: "exn \<Rightarrow> bool" where
  "is_Timeout e = (cls e = TimeoutExc)"

definition is_RequestException :: "exn \<Rightarrow> bool" where
  "is_RequestException e = (cls e = TimeoutExc \<or> cls e = RequestExc)"

definition is_OSError :: "exn \<Rightarrow> bool" where
  "is_OSError e = (is_RequestException e \<or> cls e = OSErrorExc)"

definition is_BadZipFile :: "exn \<Rightarrow> bool" where
  "is_BadZipFile e = (cls e = BadZipFileExc)"

definition is_DownloadIOError :: "exn \<Rightarrow> bool" where
  "is_DownloadIOError e = (cls e = DownloadIOErrorExc)"

datatype stream_event =
    Chunk string \<comment> \<open>a chunk received from \<open>iter_content\<close> and written to the archive member\<close>
  | Fails exn \<comment> \<open>\<open>iter_content\<close> or \<open>zip_file.write\<close> raising\<close>

record response =
  status_code :: int
  content_disposition :: "string option"
  content_type :: "string option"
  content :: "stream_event list"

record platform =
  splitext_root :: "string \<Rightarrow> string" \<comment> \<open>\<open>os.path.splitext(name)[0]\<close>\<close>
  guess_extension :: "string \<Rightarrow> string option" \<comment> \<open>\<open>mimetypes.guess_extension\<close>\<close>
  basename :: "string \<Rightarrow> string" \<comment> \<open>\<open>os.path.basename\<close>\<close>

record download_env =
  http_get :: "string \<Rightarrow> exn + response" \<comment> \<open>\<open>requests.get(url, stream=True, ...)\<close>\<close>
  open_error :: "exn option" \<comment> \<open>\<open>zipfile.ZipFile(path, "w")\<close> raising, no file created\<close>
  close_error :: "exn option" \<comment> \<open>leaving the \<open>with\<close> blocks raising, after the last chunk\<close>
  unlink_error :: "exn option" \<comment> \<open>\<open>file_path.unlink()\<close> raising, the file left in place\<close>

fun after_last :: "string \<Rightarrow> string \<Rightarrow> string" where
  \<comment> \<open>\<open>s.split(sep)[-1]\<close>, for a separator that cannot overlap itself (\<open>"/"\<close>,
      \<open>"filename="\<close>): what follows the last occurrence, or all of \<open>s\<close>.\<close>
  "after_last sep [] = []"
| "after_last sep (c # cs) =
     (if contains sep cs then after_last sep cs
      else if starts_with sep (c # cs) then drop (length sep) (c # cs)
      else c # cs)"

definition strip_chars :: "string \<Rightarrow> string \<Rightarrow> string" where
  \<comment> \<open>\<open>s.strip(chars)\<close>\<close>
  "strip_chars chars s =
     rev (dropWhile (\<lambda>c. c \<in> set chars) (rev (dropWhile (\<lambda>c. c \<in> set chars) s)))"

definition get_file_extension :: "platform \<Rightarrow> response \<Rightarrow> string" where
  "get_file_extension plat resp =
     (case content_type resp of
        None \<Rightarrow> []
      | Some ct \<Rightarrow>
          if ct = [] then []
          else (case guess_extension plat ct of None \<Rightarrow> [] | Some ext \<Rightarrow> ext))"

definition get_file_name :: "platform \<Rightarrow> response \<Rightarrow> string \<Rightarrow> string" where
  "get_file_name plat resp url =
     (case content_disposition resp of
        Some cd \<Rightarrow>
          if contains ''filename='' cd
          then strip_chars [CHR 0x22, CHR 0x27] (after_last ''filename='' cd)
          else (let filename = after_last ''/'' url
                in if CHR ''.'' \<notin> set filename
                   then filename @ get_file_extension plat resp else filename)
      | None \<Rightarrow>
          (let filename = after_last ''/'' url
           in if CHR ''.'' \<notin> set filename
              then filename @ get_file_extension plat resp else filename))"

definition digit_char :: "nat \<Rightarrow> char" where
  "digit_char d = char_of (48 + d)"

function show_nat :: "nat \<Rightarrow> string" where
  \<comment> \<open>\<open>str(counter)\<close>\<close>
  "show_nat n = (if n < 10 then [digit_char n] else show_nat (n div 10) @ [digit_char (n mod 10)])"
  by pat_completeness auto
termination
  by (relation "measure (\<lambda>n. n)") auto

definition numbered :: "string \<Rightarrow> nat \<Rightarrow> string" where
  "numbered base_name counter = base_name @ ''('' @ show_nat counter @ '').zip''"

text \<open>
  The download folder is the list of the file names in it; a path is the name given to
  \<open>self.download_folder / name\<close>.
\<close>

function unique_loop :: "string list \<Rightarrow> string \<Rightarrow> nat \<Rightarrow> string" where
  \<comment> \<open>the \<open>while file_path.exists()\<close> loop, entered with the candidate of \<open>counter\<close> next\<close>
  "unique_loop fs base_name counter =
     (if numbered base_name counter \<in> set fs
      then unique_loop fs base_name (Suc counter)
      else numbered base_name counter)"
  by pat_completeness auto
termination
proof (relation "measure (\<lambda>(fs, base_name, counter).
                   card {c. counter \<le> c \<and> numbered base_name c \<in> set fs})")
  show "wf (measure (\<lambda>(fs, base_name, counter).
              card {c. counter \<le> c \<and> numbered base_name c \<in> set fs}))"
    by simp
next
  fix fs :: "string list" and base_name :: string and counter :: nat
  assume taken: "numbered base_name counter \<in> set fs"
  have snoc: "digits_value (ds @ [d]) = 10 * digits_value ds + digit_val d" for ds d
    by (simp add: digits_value_def)
  have roundtrip: "digits_value (show_nat n) = n" for n
  proof (induction n rule: show_nat.induct)
    case (1 n)
    show ?case
    proof (cases "n < 10")
      case True
      then show ?thesis
        by (subst show_nat.simps) (simp add: digits_value_def digit_val_def digit_char_def)
    next
      case False
      have "n mod 10 < 10" by simp
      then have d: "digit_val (digit_char (n mod 10)) = n mod 10"
        by (simp add: digit_val_def digit_char_def)
      have "digits_value (show_nat n) =
              10 * digits_value (show_nat (n div 10)) + digit_val (digit_char (n mod 10))"
        using False by (subst show_nat.simps) (simp add: snoc)
      also have "\<dots> = 10 * (n div 10) + n mod 10"
        using "1.IH" [OF False] d by simp
      finally show ?thesis by simp
    qed
  qed
  have inj: "inj (numbered base_name)"
  proof (rule injI)
    fix x y assume "numbered base_name x = numbered base_name y"
    then have "show_nat x = show_nat y" by (simp add: numbered_def)
    then have "digits_value (show_nat x) = digits_value (show_nat y)" by simp
    then show "x = y" by (simp only: roundtrip)
  qed
  have fin: "finite {c. counter \<le> c \<and> numbered base_name c \<in> set fs}"
  proof (rule finite_subset)
    show "{c. counter \<le> c \<and> numbered base_name c \<in> set fs} \<subseteq> numbered base_name -` set fs"
      by auto
    show "finite (numbered base_name -` set fs)"
      using inj by (intro finite_vimageI) simp_all
  qed
  have "{c. Suc counter \<le> c \<and> numbered base_name c \<in> set fs}
          \<subset> {c. counter \<le> c \<and> numbered base_name c \<in> set fs}"
  proof (rule psubsetI)
    show "{c. Suc counter \<le> c \<and> numbered base_name c \<in> set fs}
            \<subseteq> {c. counter \<le> c \<and> numbered base_name c \<in> set fs}" by auto
    have "counter \<in> {c. counter \<le> c \<and> numbered base_name c \<in> set fs}"
      using taken by simp
    moreover have "counter \<notin> {c. Suc counter \<le> c \<and> numbered base_name c \<in> set fs}"
      by simp
    ultimately show "{c. Suc counter \<le> c \<and> numbered base_name c \<in> set fs}
            \<noteq> {c. counter \<le> c \<and> numbered base_name c \<in> set fs}" by metis
  qed
  then have "card {c. Suc counter \<le> c \<and> numbered base_name c \<in> set fs}
               < card {c. counter \<le> c \<and> numbered base_name c \<in> set fs}"
    using fin by (rule psubset_card_mono [rotated])
  then show "((fs, base_name, Suc counter), (fs, base_name, counter))
               \<in> measure (\<lambda>(fs, base_name, counter).
                    card {c. counter \<le> c \<and> numbered base_name c \<in> set fs})"
    by simp
qed

definition get_unique_file_path :: "platform \<Rightarrow> string list \<Rightarrow> string \<Rightarrow> string" where
  "get_unique_file_path plat fs filename =
     (let base_name = splitext_root plat filename
      in if base_name @ ''.zip'' \<in> set fs then unique_loop fs base_name 1
         else base_name @ ''.zip'')"

fun stream :: "stream_event list \<Rightarrow> nat \<Rightarrow> exn + nat" where
  \<comment> \<open>the \<open>for chunk in response.iter_content(...)\<close> loop; the number is \<open>downloaded_size\<close>\<close>
  "stream [] downloaded_size = Inr downloaded_size"
| "stream (Chunk chunk # rest) downloaded_size = stream rest (downloaded_size + length chunk)"
| "stream (Fails e # rest) downloaded_size = Inl e"

definition write_archive ::
  "download_env \<Rightarrow> response \<Rightarrow> string list \<Rightarrow> string \<Rightarrow> (exn + nat) \<times> string list" where
  \<comment> \<open>the body of the inner \<open>try\<close>: the archive is created, then filled\<close>
  "write_archive env resp fs file_path =
     (case open_error env of
        Some e \<Rightarrow> (Inl e, fs)
      | None \<Rightarrow>
          (case stream (content resp) 0 of
             Inl e \<Rightarrow> (Inl e, file_path # fs)
           | Inr downloaded_size \<Rightarrow>
               (case close_error env of
                  Some e \<Rightarrow> (Inl e, file_path # fs)
                | None \<Rightarrow> (Inr downloaded_size, file_path # fs))))"

definition unlink_if_exists ::
  "download_env \<Rightarrow> string \<Rightarrow> string list \<Rightarrow> (exn + unit) \<times> string list" where
  \<comment> \<open>\<open>if file_path.exists(): file_path.unlink()\<close>; an unlink that goes through takes the
      name out of the folder, one that raises leaves the folder as it is\<close>
  "unlink_if_exists env file_path fs =
     (if file_path \<in> set fs
      then (case unlink_error env of
              Some e \<Rightarrow> (Inl e, fs)
            | None \<Rightarrow> (Inr (), removeAll file_path fs))
      else (Inr (), fs))"

type_synonym download_result = "string \<times> string option \<times> bool"

definition download_try ::
  "platform \<Rightarrow> download_env \<Rightarrow> string list \<Rightarrow> string \<Rightarrow> (exn + download_result) \<times> string list" where
  \<comment> \<open>the body of the outer \<open>try\<close>, the inner \<open>try\<close> and its handler included; an exception
      the inner handler does not name, or one raised inside that handler, goes on to the
      outer handlers\<close>
  "download_try plat env fs url =
     (case http_get env url of
        Inl e \<Rightarrow> (Inl e, fs)
      | Inr resp \<Rightarrow>
          if raise_for_status (status_code resp) then (Inl (Exn RequestExc ''HTTPError''), fs)
          else (let file_name = get_file_name plat resp url;
                    file_path = get_unique_file_path plat fs file_name
                in case write_archive env resp fs file_path of
                     (Inr downloaded_size, fs1) \<Rightarrow>
                       (Inr (''File successfully downloaded'', Some file_path, False), fs1)
                   | (Inl file_error, fs1) \<Rightarrow>
                       if is_OSError file_error \<or> is_BadZipFile file_error
                       then (case unlink_if_exists env file_path fs1 of
                               (Inl unlink_exn, fs2) \<Rightarrow> (Inl unlink_exn, fs2)
                             | (Inr _, fs2) \<Rightarrow>
                                 (Inl (Exn DownloadIOErrorExc
                                        (''File write error: '' @ str_of file_error)),
                                  fs2))
                       else (Inl file_error, fs1)))"

definition download_except :: "exn \<Rightarrow> exn + download_result" where
  \<comment> \<open>the handlers of the outer \<open>try\<close>, first match wins; the last one, \<open>except Exception\<close>,
      takes every class\<close>
  "download_except e =
     (if is_Timeout e then Inr (''Download timeout: '' @ str_of e, None, True)
      else if is_RequestException e
      then Inr (''Download request failed: '' @ str_of e, None, True)
      else if is_DownloadIOError e then Inr (str_of e, None, True)
      else Inr (''Unexpected download error: '' @ str_of e, None, True))"

definition download_file ::
  "platform \<Rightarrow> download_env \<Rightarrow> string list \<Rightarrow> string \<Rightarrow> (exn + download_result) \<times> string list" where
  \<comment> \<open>\<open>Inl\<close> would be an exception leaving \<open>download_file\<close>\<close>
  "download_file plat env fs url =
     (case download_try plat env fs url of
        (Inr r, fs') \<Rightarrow> (Inr r, fs')
      | (Inl e, fs') \<Rightarrow> (download_except e, fs'))"

text \<open>A concrete platform, folder and transport, used to run the model.\<close>

definition posix_like :: platform where
  "posix_like =
     \<lparr>splitext_root = takeWhile (\<lambda>c. c \<noteq> CHR ''.''),
      guess_extension = (\<lambda>ct. if ct = ''application/zip'' then Some ''.zip'' else None),
      basename = after_last ''/''\<rparr>"



definition good_response :: response where
  "good_response =
     \<lparr>status_code = 200, content_disposition = None, content_type = None,
      content = [Chunk ''abc'', Chunk ''de'']\<rparr>"

definition good_env :: download_env where
  "good_env =
     \<lparr>http_get = (\<lambda>url. Inr good_response), open_error = None, close_error = None,
      unlink_error = None\<rparr>"




section \<open>DatoidCrawler.crawl\_page: one item attempt and its persistence\<close>

datatype browser_exn = TimeoutException | WebDriverException

datatype resolution =
    Resolved string
      \<comment> \<open>the detail window was opened, both controls clicked, and the final link read\<close>
  | HopRaises browser_exn
      \<comment> \<open>the first exception raised between the size gate and the download\<close>

datatype db_call =
    InsertHash string
  | InsertCrack "string option" "string option" "string option" "string option" "int option"
      \<comment> \<open>title, size, extension, archive name, hash identifier\<close>
  | InsertError string int

record item_env =
  text_attr :: "browser_exn + string option" \<comment> \<open>\<open>item.get_attribute("text")\<close>\<close>
  detail :: resolution
  download :: "string \<Rightarrow> download_result" \<comment> \<open>what \<open>download_file(link)\<close> returns\<close>
  sha256_of :: "string \<Rightarrow> string option" \<comment> \<open>\<open>calculate_sha256(path)\<close>, \<open>None\<close> on failure\<close>
  insert_hash_result :: "db_exception + int"
  insert_crack_result :: "db_exception + int"
  insert_error_raises :: "nat \<Rightarrow> bool" \<comment> \<open>whether the \<open>k\<close>-th \<open>insert_error\<close> call raises\<close>

record item_state =
  file_title :: "string option"
  file_extension :: "string option"
  file_size :: "string option"
  download_info :: "string option"
  download_path :: "string option"
  download_exception :: "bool option"
  hash_value :: "string option"
  size_exception :: "string option"
  timeout_exception :: "string option"

definition fresh_item :: item_state where
  \<comment> \<open>the locals as set at the top of the loop body\<close>
  "fresh_item =
     \<lparr>file_title = None, file_extension = None, file_size = None, download_info = None,
      download_path = None, download_exception = None, hash_value = None,
      size_exception = None, timeout_exception = None\<rparr>"

definition truthy :: "string option \<Rightarrow> bool" where
  \<comment> \<open>\<open>if x:\<close> for a value that is \<open>None\<close> or a \<open>str\<close>\<close>
  "truthy x = (case x of None \<Rightarrow> False | Some s \<Rightarrow> s \<noteq> [])"

definition str_of_size_error :: "(rat \<Rightarrow> string) \<Rightarrow> size_error \<Rightarrow> string" where
  \<comment> \<open>\<open>str(e)\<close>; the first argument renders the float limit\<close>
  "str_of_size_error fmt e =
     (case e of DownloadFileTooLargeError declared mx \<Rightarrow>
        ''File size '' @ declared @ '' exceeds maximum allowed size of '' @ fmt mx @ '' MB'')"

definition timeout_message :: "string option \<Rightarrow> string" where
  "timeout_message title =
     ''Timeout downloading file: '' @ (case title of None \<Rightarrow> ''None'' | Some t \<Rightarrow> t)"

definition attempt :: "rat \<Rightarrow> (rat \<Rightarrow> string) \<Rightarrow> item_env \<Rightarrow> item_state" where
  \<comment> \<open>the \<open>try\<close> with its two handlers: the locals as the \<open>finally\<close> block finds them\<close>
  "attempt max_file_size_mb fmt env =
     (case text_attr env of
        Inl TimeoutException \<Rightarrow>
          fresh_item\<lparr>timeout_exception := Some (timeout_message None)\<rparr>
      | Inl WebDriverException \<Rightarrow> fresh_item
      | Inr file_info \<Rightarrow>
          (case get_parsed_file_info file_info of (title, extension, sz) \<Rightarrow>
             (let st = fresh_item\<lparr>file_title := Some title, file_extension := Some extension,
                                   file_size := Some sz\<rparr>
              in case validate_file_size max_file_size_mb sz of
                   Inl e \<Rightarrow> st\<lparr>size_exception := Some (str_of_size_error fmt e)\<rparr>
                 | Inr ok \<Rightarrow>
                     (case detail env of
                        HopRaises TimeoutException \<Rightarrow>
                          st\<lparr>timeout_exception := Some (timeout_message (Some title))\<rparr>
                      | HopRaises WebDriverException \<Rightarrow> st
                      | Resolved download_link \<Rightarrow>
                          (case download env download_link of (info, path, has_error) \<Rightarrow>
                             (let st1 = st\<lparr>download_info := Some info, download_path := path,
                                             download_exception := Some has_error\<rparr>
                              in case path of
                                   None \<Rightarrow> st1
                                 | Some p \<Rightarrow> st1\<lparr>hash_value := sha256_of env p\<rparr>))))))"

fun insert_errors :: "(nat \<Rightarrow> bool) \<Rightarrow> nat \<Rightarrow> int \<Rightarrow> string option list \<Rightarrow> db_call list" where
  \<comment> \<open>the \<open>if flag: self.db.insert_error(message, db_crack_id)\<close> statements in order; a
      message is \<open>None\<close> when its flag is not set; a call that raises ends the block\<close>
  "insert_errors raises k crack_id [] = []"
| "insert_errors raises k crack_id (None # rest) = insert_errors raises k crack_id rest"
| "insert_errors raises k crack_id (Some message # rest) =
     InsertError message crack_id #
       (if raises k then [] else insert_errors raises (Suc k) crack_id rest)"

definition error_messages :: "item_state \<Rightarrow> string option list" where
  "error_messages st =
     [if download_exception st = Some True then download_info st else None,
      if truthy (timeout_exception st) then timeout_exception st else None,
      if truthy (size_exception st) then size_exception st else None]"

definition insert_crack_and_errors ::
  "item_env \<Rightarrow> item_state \<Rightarrow> string option \<Rightarrow> int option \<Rightarrow> db_call list" where
  "insert_crack_and_errors env st archive hash_id =
     InsertCrack (file_title st) (file_size st) (file_extension st) archive hash_id #
       (case insert_crack_result env of
          Inl e \<Rightarrow> []
        | Inr db_crack_id \<Rightarrow>
            insert_errors (insert_error_raises env) 0 db_crack_id (error_messages st))"

definition persist :: "platform \<Rightarrow> item_env \<Rightarrow> item_state \<Rightarrow> db_call list" where
  \<comment> \<open>the \<open>finally\<close> block: the database calls made, in order; an exception raised by one
      of them is logged by the block's handler and ends it\<close>
  "persist plat env st =
     (case (download_path st, hash_value st) of
        (Some path, Some h) \<Rightarrow>
          if h \<noteq> []
          then InsertHash h #
                 (case insert_hash_result env of
                    Inl e \<Rightarrow> []
                  | Inr db_hash_id \<Rightarrow>
                      insert_crack_and_errors env st (Some (basename plat path)) (Some db_hash_id))
          else insert_crack_and_errors env st None None
      | _ \<Rightarrow> insert_crack_and_errors env st None None)"

definition crawl_item ::
  "rat \<Rightarrow> (rat \<Rightarrow> string) \<Rightarrow> platform \<Rightarrow> item_env \<Rightarrow> db_call list" where
  "crawl_item max_file_size_mb fmt plat env = persist plat env (attempt max_file_size_mb fmt env)"

definition crawl_page ::
  "rat \<Rightarrow> (rat \<Rightarrow> string) \<Rightarrow> platform \<Rightarrow> (browser_exn + item_env list) \<Rightarrow>
     browser_exn + db_call list" where
  \<comment> \<open>the wait for the items may raise, which is raised again; otherwise the items are
      processed one after the other\<close>
  "crawl_page max_file_size_mb fmt plat page =
     (case page of
        Inl e \<Rightarrow> Inl e
      | Inr items \<Rightarrow> Inr (concat (map (crawl_item max_file_size_mb fmt plat) items)))"

fun is_insert_crack :: "db_call \<Rightarrow> bool" where
  "is_insert_crack (InsertCrack t s e z h) = True"
| "is_insert_crack c = False"

fun is_insert_error :: "db_call \<Rightarrow> bool" where
  "is_insert_error (InsertError m c) = True"
| "is_insert_error c = False"

definition flags_set :: "item_state \<Rightarrow> nat" where
  \<comment> \<open>how many of the three failure flags the \<open>finally\<close> block finds set\<close>
  "flags_set st =
     length (filter (\<lambda>b. b)
       [download_exception st = Some True, truthy (timeout_exception st),
        truthy (size_exception st)])"

definition example_item :: item_env where
  \<comment> \<open>an item of 12 MB whose download and hash succeed\<close>
  "example_item =
     \<lparr>text_attr =
        Inr (Some (''ZIP'' @ [CHR 0x0A, CHR 0x0A] @ '' 12 MB '' @ [CHR 0x0A] @ ''Setup crack'')),
      detail = Resolved ''http://host/setup.exe'',
      download = (\<lambda>link. (''File successfully downloaded'', Some ''dl/setup.zip'', False)),
      sha256_of = (\<lambda>p. Some ''ab12''),
      insert_hash_result = Inr 7,
      insert_crack_result = Inr 31,
      insert_error_raises = (\<lambda>k. False)\<rparr>"

definition populated :: "item_state \<Rightarrow> bool" where
  \<comment> \<open>\<open>download_path and hash_value\<close>\<close>
  "populated st = (download_path st \<noteq> None \<and> truthy (hash_value st))"

definition hash_insert_fails_item :: item_env where
  \<comment> \<open>the same item, with the database refusing the hash\<close>
  "hash_insert_fails_item = example_item\<lparr>insert_hash_result := Inl DatabaseConnectionError\<rparr>"

definition oversized_item :: item_env where
  \<comment> \<open>the same item declared as 25 MB\<close>
  "oversized_item =
     example_item\<lparr>text_attr :=
       Inr (Some (''ZIP'' @ [CHR 0x0A] @ ''25 MB'' @ [CHR 0x0A] @ ''Setup crack''))\<rparr>"

definition show_limit :: "rat \<Rightarrow> string" where
  \<comment> \<open>how the default ceiling \<open>20.0\<close> prints\<close>
  "show_limit r = ''20.0''"

section \<open>Size gate: properties\<close>

lemma round_half_even_near: "\<bar>of_int (round_half_even x) - x\<bar> \<le> 1 / 2"
proof -
  have "of_int \<lfloor>x\<rfloor> \<le> x" and "x < of_int \<lfloor>x\<rfloor> + 1" by linarith+
  then show ?thesis by (auto simp: round_half_even_def Let_def)
qed

lemma pow2_powi: "pow2 e = 2 powi e"
  by (simp add: pow2_def power_int_def inverse_eq_divide power_divide)

lemma binade_bounds:
  assumes "0 < x"
  shows "pow2 (binade x) \<le> x \<and> x < pow2 (binade x + 1)"
proof -
  obtain p q where pq: "quotient_of x = (p, q)" by (cases "quotient_of x")
  then have q: "0 < q" by (rule quotient_of_denom_pos)
  have x: "x = of_int p / of_int q" using pq by (rule quotient_of_div)
  have p: "0 < p" using assms q x by (simp add: zero_less_divide_iff)
  let ?k = "bitlen p - bitlen q"
  have bp: "2 ^ nat (bitlen p - 1) \<le> p" "p < 2 ^ nat (bitlen p)"
    using bitlen_bounds [OF p] by simp_all
  have bq: "2 ^ nat (bitlen q - 1) \<le> q" "q < 2 ^ nat (bitlen q)"
    using bitlen_bounds [OF q] by simp_all
  have lp: "0 < bitlen p" and lq: "0 < bitlen q"
    using p q bitlen_nonneg [of p] bitlen_nonneg [of q]
    by (simp_all add: less_le bitlen_eq_zero_iff)
  have rp: "(2::rat) powi (bitlen p - 1) \<le> of_int p" "of_int p < (2::rat) powi (bitlen p)"
  proof -
    have "(of_int (2 ^ nat (bitlen p - 1)) :: rat) \<le> of_int p" using bp(1) by (simp only: of_int_le_iff)
    then show "(2::rat) powi (bitlen p - 1) \<le> of_int p" using lp by (simp add: power_int_def)
    have "(of_int p :: rat) < of_int (2 ^ nat (bitlen p))" using bp(2) by (simp only: of_int_less_iff)
    then show "of_int p < (2::rat) powi (bitlen p)" using lp by (simp add: power_int_def)
  qed
  have rq: "(2::rat) powi (bitlen q - 1) \<le> of_int q" "of_int q < (2::rat) powi (bitlen q)"
  proof -
    have "(of_int (2 ^ nat (bitlen q - 1)) :: rat) \<le> of_int q" using bq(1) by (simp only: of_int_le_iff)
    then show "(2::rat) powi (bitlen q - 1) \<le> of_int q" using lq by (simp add: power_int_def)
    have "(of_int q :: rat) < of_int (2 ^ nat (bitlen q))" using bq(2) by (simp only: of_int_less_iff)
    then show "of_int q < (2::rat) powi (bitlen q)" using lq by (simp add: power_int_def)
  qed
  have qpos: "(0::rat) < of_int q" using q by simp
  have lower: "(2::rat) powi (?k - 1) < x"
  proof -
    have "(2::rat) powi (?k - 1) * of_int q < 2 powi (?k - 1) * 2 powi (bitlen q)"
      using rq(2) by (simp add: mult_strict_left_mono)
    also have "\<dots> = 2 powi (bitlen p - 1)"
      by (simp add: power_int_add [symmetric])
    also have "\<dots> \<le> of_int p" by (rule rp(1))
    finally show ?thesis using qpos by (simp add: x pos_less_divide_eq)
  qed
  have upper: "x < (2::rat) powi (?k + 1)"
  proof -
    have "of_int p < (2::rat) powi (bitlen p)" by (rule rp(2))
    also have "\<dots> = 2 powi (?k + 1) * 2 powi (bitlen q - 1)"
      by (simp add: power_int_add [symmetric])
    also have "\<dots> \<le> 2 powi (?k + 1) * of_int q"
      using rq(1) by (simp add: mult_left_mono)
    finally show ?thesis using qpos by (simp add: x pos_divide_less_eq)
  qed
  have b: "binade x = (if 2 powi ?k \<le> x then ?k else ?k - 1)"
    by (simp add: binade_def pq Let_def pow2_powi)
  show ?thesis
  proof (cases "2 powi ?k \<le> x")
    case True
    with b upper show ?thesis by (simp add: pow2_powi)
  next
    case False
    with b lower show ?thesis by (simp add: pow2_powi)
  qed
qed

lemma float_of_str_15: "float_of_str ''15'' = Some (Finite 15)"
  by code_simp

lemma float_of_str_25: "float_of_str ''25'' = Some (Finite 25)"
  by code_simp

lemma float_of_str_just_above_20: "float_of_str ''20.000000000000001'' = Some (Finite 20)"
  by code_simp

lemma float_of_str_above_20:
  "float_of_str ''20.00000000000001'' = Some (Finite (5629499534213123 / 281474976710656))"
  by code_simp

lemma size_str_15_MB: "size_str ''15 MB'' = ''15''"
  by (simp add: size_str_def isdigit_def is_ascii_digit_def)

lemma size_str_25_MB: "size_str ''25 MB'' = ''25''"
  by (simp add: size_str_def isdigit_def is_ascii_digit_def)

lemma size_str_just_above_20: "size_str ''20.000000000000001 MB'' = ''20.000000000000001''"
  by (simp add: size_str_def isdigit_def is_ascii_digit_def)

lemma size_str_above_20: "size_str ''20.00000000000001 MB'' = ''20.00000000000001''"
  by (simp add: size_str_def isdigit_def is_ascii_digit_def)

text \<open>
  C2. A size string with a gigabyte marker is rejected whatever its number. A megabyte
  string (MB marker, no GB marker) whose parsed value, the float that \<open>float\<close> gives for its
  digits and dots, exceeds the ceiling is rejected with the declared string and the limit
  attached; one whose value does not exceed the ceiling is accepted.
\<close>

theorem validate_file_size_contract:
  "(contains ''GB'' s \<longrightarrow>
      validate_file_size mx s = Inl (DownloadFileTooLargeError s mx)) \<and>
   (\<not> contains ''GB'' s \<and> contains ''MB'' s \<and> float_of_str (size_str s) = Some v \<and>
    exceeds v mx \<longrightarrow>
      validate_file_size mx s = Inl (DownloadFileTooLargeError s mx)) \<and>
   (\<not> contains ''GB'' s \<and> contains ''MB'' s \<and> float_of_str (size_str s) = Some v \<and>
    \<not> exceeds v mx \<longrightarrow>
      validate_file_size mx s = Inr True)"
  by (simp add: validate_file_size_def)

theorem validate_file_size_contract_witness:
  "validate_file_size 20 ''2 GB'' = Inl (DownloadFileTooLargeError ''2 GB'' 20) \<and>
   validate_file_size 20 ''25 MB'' = Inl (DownloadFileTooLargeError ''25 MB'' 20) \<and>
   validate_file_size 20 ''15 MB'' = Inr True \<and>
   validate_file_size 20 ''20.000000000000001 MB'' = Inr True \<and>
   validate_file_size 20 ''20.00000000000001 MB'' =
     Inl (DownloadFileTooLargeError ''20.00000000000001 MB'' 20)"
proof -
  have gb: "contains ''GB'' ''2 GB''" by simp
  have mb25: "\<not> contains ''GB'' ''25 MB'' \<and> contains ''MB'' ''25 MB'' \<and>
              float_of_str (size_str ''25 MB'') = Some (Finite 25) \<and> exceeds (Finite 25) 20"
    by (simp add: size_str_25_MB float_of_str_25 exceeds_def)
  have mb15: "\<not> contains ''GB'' ''15 MB'' \<and> contains ''MB'' ''15 MB'' \<and>
              float_of_str (size_str ''15 MB'') = Some (Finite 15) \<and> \<not> exceeds (Finite 15) 20"
    by (simp add: size_str_15_MB float_of_str_15 exceeds_def)
  have edge: "\<not> contains ''GB'' ''20.000000000000001 MB'' \<and>
              contains ''MB'' ''20.000000000000001 MB'' \<and>
              float_of_str (size_str ''20.000000000000001 MB'') = Some (Finite 20) \<and>
              \<not> exceeds (Finite 20) 20"
    by (simp add: size_str_just_above_20 float_of_str_just_above_20 exceeds_def)
  have over: "\<not> contains ''GB'' ''20.00000000000001 MB'' \<and>
              contains ''MB'' ''20.00000000000001 MB'' \<and>
              float_of_str (size_str ''20.00000000000001 MB'') =
                Some (Finite (5629499534213123 / 281474976710656)) \<and>
              exceeds (Finite (5629499534213123 / 281474976710656)) 20"
    by (simp add: size_str_above_20 float_of_str_above_20 exceeds_def)
  from gb mb25 mb15 edge over
    validate_file_size_contract [where s = "''2 GB''" and mx = 20]
    validate_file_size_contract [where s = "''25 MB''" and mx = 20 and v = "Finite 25"]
    validate_file_size_contract [where s = "''15 MB''" and mx = 20 and v = "Finite 15"]
    validate_file_size_contract [where s = "''20.000000000000001 MB''" and mx = 20
      and v = "Finite 20"]
    validate_file_size_contract [where s = "''20.00000000000001 MB''" and mx = 20
      and v = "Finite (5629499534213123 / 281474976710656)"]
  show ?thesis by blast
qed

text \<open>
  C7. The claim as written: every string with a megabyte marker whose numeric portion
  does not parse is accepted. The gigabyte gate runs first, so a string that also carries
  a gigabyte marker is rejected.
\<close>

theorem validate_file_size_unparsable_counterexample:
  "contains ''MB'' ''GB MB'' \<and> float_of_str (size_str ''GB MB'') = None \<and>
   validate_file_size 20 ''GB MB'' = Inl (DownloadFileTooLargeError ''GB MB'' 20)"
  by (simp add: validate_file_size_def size_str_def isdigit_def is_ascii_digit_def
      float_of_str_def)

text \<open>
  C7, amended. A string without a gigabyte marker is accepted when it has a megabyte
  marker and its numeric portion does not parse, and when it has no megabyte marker.
\<close>

theorem validate_file_size_fail_open:
  "(\<not> contains ''GB'' s \<and> contains ''MB'' s \<and> float_of_str (size_str s) = None \<longrightarrow>
      validate_file_size mx s = Inr True) \<and>
   (\<not> contains ''GB'' s \<and> \<not> contains ''MB'' s \<longrightarrow> validate_file_size mx s = Inr True)"
  by (simp add: validate_file_size_def)

theorem validate_file_size_fail_open_witness:
  "validate_file_size 20 ''1.2.3 MB'' = Inr True \<and> validate_file_size 20 ''700 kB'' = Inr True"
proof -
  have a: "\<not> contains ''GB'' ''1.2.3 MB'' \<and> contains ''MB'' ''1.2.3 MB'' \<and>
           float_of_str (size_str ''1.2.3 MB'') = None"
    by (simp add: size_str_def isdigit_def is_ascii_digit_def float_of_str_def)
  have b: "\<not> contains ''GB'' ''700 kB'' \<and> \<not> contains ''MB'' ''700 kB''" by simp
  from a b validate_file_size_fail_open [where s = "''1.2.3 MB''" and mx = 20]
    validate_file_size_fail_open [where s = "''700 kB''" and mx = 20]
  show ?thesis by blast
qed

section \<open>Item extractor: properties\<close>

lemma py_index_first: "xs \<noteq> [] \<Longrightarrow> py_index xs 0 = Inr (hd xs)"
  by (cases xs) (simp_all add: py_index_def)

lemma py_index_last: "xs \<noteq> [] \<Longrightarrow> py_index xs (- 1) = Inr (last xs)"
  by (cases xs) (simp_all add: py_index_def last_conv_nth)

lemma py_index_second_last:
  "2 \<le> length xs \<Longrightarrow> py_index xs (- 2) = Inr (xs ! (length xs - 2))"
  by (simp add: py_index_def)

lemma py_index_second_last_short: "length xs < 2 \<Longrightarrow> py_index xs (- 2) = Inl IndexError"
  by (simp add: py_index_def)

lemma cleared_data_no_blank: "l \<in> set (cleared_data info) \<Longrightarrow> l \<noteq> []"
  by (auto simp: cleared_data_def)

text \<open>
  C8. The blank lines of the text are dropped (and the others stripped). With at least
  two lines left, the result is (title, extension, size) = (last line, first line,
  second-to-last line). With fewer than two lines left, or no text at all, the body of the
  \<open>try\<close> raises and the result is the sentinel triple; the function itself has no error
  result.
\<close>

theorem get_parsed_file_info_contract:
  "(2 \<le> length (cleared_data info) \<longrightarrow>
      get_parsed_file_info (Some info) =
        (last (cleared_data info), hd (cleared_data info),
         cleared_data info ! (length (cleared_data info) - 2))) \<and>
   (length (cleared_data info) < 2 \<longrightarrow>
      parse_file_info (Some info) = Inl IndexError \<and>
      get_parsed_file_info (Some info) = (''Unknown'', ''Unknown'', ''Unknown'')) \<and>
   get_parsed_file_info None = (''Unknown'', ''Unknown'', ''Unknown'') \<and>
   cleared_data info = filter (\<lambda>l. l \<noteq> []) (map strip (split_on CHR 0x0A info))"
proof (intro conjI impI)
  assume two: "2 \<le> length (cleared_data info)"
  then have ne: "cleared_data info \<noteq> []" by auto
  show "get_parsed_file_info (Some info) =
        (last (cleared_data info), hd (cleared_data info),
         cleared_data info ! (length (cleared_data info) - 2))"
    by (simp add: get_parsed_file_info_def parse_file_info_def Let_def
        py_index_first [OF ne] py_index_last [OF ne] py_index_second_last [OF two])
next
  assume short: "length (cleared_data info) < 2"
  show "parse_file_info (Some info) = Inl IndexError"
    using py_index_second_last_short [OF short]
    by (cases "cleared_data info")
       (simp_all add: parse_file_info_def Let_def py_index_def)
  then show "get_parsed_file_info (Some info) = (''Unknown'', ''Unknown'', ''Unknown'')"
    by (simp add: get_parsed_file_info_def)
next
  show "get_parsed_file_info None = (''Unknown'', ''Unknown'', ''Unknown'')"
    by (simp add: get_parsed_file_info_def parse_file_info_def)
next
  show "cleared_data info = filter (\<lambda>l. l \<noteq> []) (map strip (split_on CHR 0x0A info))"
    by (simp add: cleared_data_def filter_map comp_def)
qed

lemma cleared_data_example:
  "cleared_data (''ZIP'' @ [CHR 0x0A, CHR 0x0A] @ '' 12 MB '' @ [CHR 0x0A] @ ''Setup crack'' @ [CHR 0x0A])
     = [''ZIP'', ''12 MB'', ''Setup crack'']"
  by (simp add: cleared_data_def strip_def isspace_def)

lemma cleared_data_single: "cleared_data ''Setup crack'' = [''Setup crack'']"
  by (simp add: cleared_data_def strip_def isspace_def)

theorem get_parsed_file_info_contract_witness:
  "get_parsed_file_info
     (Some (''ZIP'' @ [CHR 0x0A, CHR 0x0A] @ '' 12 MB '' @ [CHR 0x0A] @ ''Setup crack'' @ [CHR 0x0A]))
     = (''Setup crack'', ''ZIP'', ''12 MB'') \<and>
   get_parsed_file_info (Some ''Setup crack'') = (''Unknown'', ''Unknown'', ''Unknown'')"
proof -
  let ?t = "''ZIP'' @ [CHR 0x0A, CHR 0x0A] @ '' 12 MB '' @ [CHR 0x0A] @ ''Setup crack'' @ [CHR 0x0A]"
  have two: "2 \<le> length (cleared_data ?t)" by (simp only: cleared_data_example) simp
  have short: "length (cleared_data ''Setup crack'') < 2" by (simp only: cleared_data_single) simp
  have "get_parsed_file_info (Some ?t) =
          (last (cleared_data ?t), hd (cleared_data ?t),
           cleared_data ?t ! (length (cleared_data ?t) - 2))"
    using get_parsed_file_info_contract [where info = ?t] two by blast
  then have a: "get_parsed_file_info (Some ?t) = (''Setup crack'', ''ZIP'', ''12 MB'')"
    by (simp only: cleared_data_example) simp
  have b: "get_parsed_file_info (Some ''Setup crack'') = (''Unknown'', ''Unknown'', ''Unknown'')"
    using get_parsed_file_info_contract [where info = "''Setup crack''"] short by blast
  from a b show ?thesis by blast
qed

section \<open>Analysis poller: properties\<close>

lemma poll_step:
  assumes "a < mx" and "analyseFile (status_check env c) = Inr None"
    and "\<not> update_state_raises env r" and "0 \<le> iv" and "iv \<le> sleep_max env"
  shows "poll env iv mx a c r = poll env iv mx (a + 1) (Suc c) (Suc r)"
  using assms by (subst poll.simps) (simp add: sleep_def)

lemma poll_calls_bound: "fst (snd (poll env iv mx a c r)) \<le> c + nat (mx - a)"
proof (induction env iv mx a c r rule: poll.induct)
  case (1 env iv mx a c r)
  show ?case
  proof (cases "a < mx")
    case False
    then show ?thesis by (subst poll.simps) simp
  next
    case lt: True
    show ?thesis
    proof (cases "analyseFile (status_check env c)")
      case (Inl e)
      with lt show ?thesis by (subst poll.simps) simp
    next
      case (Inr res)
      show ?thesis
      proof (cases res)
        case (Some d)
        with lt Inr show ?thesis by (subst poll.simps) simp
      next
        case None
        show ?thesis
        proof (cases "update_state_raises env r")
          case True
          with lt Inr None show ?thesis by (subst poll.simps) simp
        next
          case quiet: False
          show ?thesis
          proof (cases "sleep (sleep_max env) iv")
            case (Inl e)
            with lt Inr None quiet show ?thesis by (subst poll.simps) simp
          next
            case slept: (Inr u)
            have "fst (snd (poll env iv mx (a + 1) (Suc c) (Suc r)))
                    \<le> Suc c + nat (mx - (a + 1))"
              using "1.IH" lt Inr None quiet slept by simp
            moreover have "Suc c + nat (mx - (a + 1)) = c + nat (mx - a)"
              using lt by simp
            ultimately show ?thesis
              using lt Inr None quiet slept by (subst poll.simps) simp
          qed
        qed
      qed
    qed
  qed
qed

lemma poll_prefix:
  "0 \<le> iv \<Longrightarrow> iv \<le> sleep_max env \<Longrightarrow> int k \<le> mx - a \<Longrightarrow>
   (\<And>i. c \<le> i \<Longrightarrow> i < c + k \<Longrightarrow> analyseFile (status_check env i) = Inr None) \<Longrightarrow>
   (\<And>j. r \<le> j \<Longrightarrow> j < r + k \<Longrightarrow> \<not> update_state_raises env j) \<Longrightarrow>
   poll env iv mx a c r = poll env iv mx (a + int k) (c + k) (r + k)"
proof (induction k arbitrary: a c r)
  case 0
  then show ?case by simp
next
  case (Suc k)
  have lt: "a < mx" using Suc.prems(3) by simp
  have here: "analyseFile (status_check env c) = Inr None" using Suc.prems(4) [of c] by simp
  have quiet: "\<not> update_state_raises env r" using Suc.prems(5) [of r] by simp
  have step: "poll env iv mx a c r = poll env iv mx (a + 1) (Suc c) (Suc r)"
    using lt here quiet Suc.prems(1,2) by (rule poll_step)
  have "poll env iv mx (a + 1) (Suc c) (Suc r) =
          poll env iv mx (a + 1 + int k) (Suc c + k) (Suc r + k)"
  proof (rule Suc.IH [OF Suc.prems(1,2)])
    show "int k \<le> mx - (a + 1)" using Suc.prems(3) by simp
  next
    fix i assume "Suc c \<le> i" and "i < Suc c + k"
    then show "analyseFile (status_check env i) = Inr None" using Suc.prems(4) [of i] by simp
  next
    fix j assume "Suc r \<le> j" and "j < Suc r + k"
    then show "\<not> update_state_raises env j" using Suc.prems(5) [of j] by simp
  qed
  with step show ?case by (simp add: add.assoc)
qed

lemma poll_all_pending:
  assumes "0 \<le> iv" and "iv \<le> sleep_max env"
    and "\<And>i. c \<le> i \<Longrightarrow> i < c + nat (mx - a) \<Longrightarrow> analyseFile (status_check env i) = Inr None"
    and "\<And>j. \<not> update_state_raises env j"
  shows "poll env iv mx a c r = (Inr None, c + nat (mx - a), r + nat (mx - a))"
proof (cases "a \<le> mx")
  case False
  then show ?thesis by (subst poll.simps) simp
next
  case True
  let ?k = "nat (mx - a)"
  have "poll env iv mx a c r = poll env iv mx (a + int ?k) (c + ?k) (r + ?k)"
    using assms True by (intro poll_prefix) simp_all
  also have "\<dots> = (Inr None, c + ?k, r + ?k)"
    using True by (subst poll.simps) simp
  finally show ?thesis .
qed

lemma poll_verdict_source:
  "poll env iv mx a c r = (Inr (Some d), n, m) \<Longrightarrow>
   \<exists>i. c \<le> i \<and> i < c + nat (mx - a) \<and> analyseFile (status_check env i) = Inr (Some d)"
proof (induction env iv mx a c r rule: poll.induct)
  case (1 env iv mx a c r)
  show ?case
  proof (cases "a < mx")
    case False
    with "1.prems" show ?thesis by (subst (asm) poll.simps) simp
  next
    case lt: True
    show ?thesis
    proof (cases "analyseFile (status_check env c)")
      case (Inl e)
      with lt "1.prems" show ?thesis by (subst (asm) poll.simps) simp
    next
      case (Inr res)
      show ?thesis
      proof (cases res)
        case (Some d')
        with lt Inr "1.prems" have "d' = d" by (subst (asm) poll.simps) simp
        with lt Inr Some show ?thesis by (intro exI [of _ c]) simp
      next
        case None
        show ?thesis
        proof (cases "update_state_raises env r")
          case True
          with lt Inr None "1.prems" show ?thesis by (subst (asm) poll.simps) simp
        next
          case quiet: False
          show ?thesis
          proof (cases "sleep (sleep_max env) iv")
            case (Inl e)
            with lt Inr None quiet "1.prems" show ?thesis by (subst (asm) poll.simps) simp
          next
            case slept: (Inr u)
            have "poll env iv mx (a + 1) (Suc c) (Suc r) = (Inr (Some d), n, m)"
              using lt Inr None quiet slept "1.prems" by (subst (asm) poll.simps) simp
            then obtain i where "Suc c \<le> i" "i < Suc c + nat (mx - (a + 1))"
              "analyseFile (status_check env i) = Inr (Some d)"
              using "1.IH" [OF lt Inr None quiet slept] by blast
            moreover have "Suc c + nat (mx - (a + 1)) = c + nat (mx - a)"
              using lt by simp
            ultimately show ?thesis by (intro exI [of _ i]) simp
          qed
        qed
      qed
    qed
  qed
qed

lemma analyse_sample_calls:
  "snd (analyse_sample upload env budget interval) \<le> nat (budget div interval)"
proof -
  let ?mx = "budget div interval"
  obtain res n m where p: "poll env interval ?mx 0 0 2 = (res, n, m)"
    by (cases "poll env interval ?mx 0 0 2")
  have "n \<le> nat ?mx" using poll_calls_bound [of env interval ?mx 0 0 2] p by simp
  with p show ?thesis
    by (auto simp: analyse_sample_def Let_def split: sum.splits option.splits)
qed

lemma analyse_sample_verdict:
  assumes "fst (analyse_sample upload env budget interval) = Inr d"
  shows "\<exists>i < nat (budget div interval). analyseFile (status_check env i) = Inr (Some d)"
proof -
  let ?mx = "budget div interval"
  obtain res n m where p: "poll env interval ?mx 0 0 2 = (res, n, m)"
    by (cases "poll env interval ?mx 0 0 2")
  from assms p have "res = Inr (Some d)"
    by (auto simp: analyse_sample_def Let_def split: sum.splits option.splits if_splits)
  with p poll_verdict_source [of env interval ?mx 0 0 2 d n m] show ?thesis by auto
qed

text \<open>
  C4. The claim as written: when no completed verdict is obtained within the budget, the
  task ends with the timeout error. Here every status request stays without a verdict,
  and the task ends with another error after one check: with an interval longer than
  \<open>time.sleep\<close> takes, the first sleep raises OverflowError; with the result backend down,
  the first progress report in the loop raises.
\<close>

theorem analyse_sample_timeout_counterexample:
  "analyseFile (status_check never_ready 0) = Inr None \<and>
   analyseFile (status_check never_ready 1) = Inr None \<and>
   analyse_sample (Inr ''t1'') never_ready 18446744073709551616 9223372036854775808 =
     (Inl OverflowError, 1) \<and>
   analyse_sample (Inr ''t1'') (never_ready\<lparr>update_state_raises := (\<lambda>k. k = 2)\<rparr>) 600 10 =
     (Inl BackendError, 1)"
proof -
  let ?down = "never_ready\<lparr>update_state_raises := (\<lambda>k. k = 2)\<rparr>"
  have a: "poll never_ready 9223372036854775808 2 0 0 2 = (Inl OverflowError, 1, 3)"
    by (subst poll.simps) (simp add: never_ready_def analyseFile_def sleep_def)
  have b: "poll ?down 10 60 0 0 2 = (Inl BackendError, 1, 3)"
    by (subst poll.simps) (simp add: never_ready_def analyseFile_def)
  have c: "analyseFile (status_check never_ready 0) = Inr None"
    "analyseFile (status_check never_ready 1) = Inr None"
    by (simp_all add: never_ready_def analyseFile_def)
  have d: "\<not> update_state_raises never_ready 0" "\<not> update_state_raises never_ready 1"
    "\<not> update_state_raises ?down 0" "\<not> update_state_raises ?down 1"
    by (simp_all add: never_ready_def)
  show ?thesis
    using a b c d by (simp add: analyse_sample_def del: poll.simps)
qed

text \<open>
  C4, amended. The task issues at most \<open>max_attempts = budget div interval\<close> status checks
  (none when the interval is zero, where computing \<open>max_attempts\<close> raises), and it returns a
  verdict only when one of the checks within that budget produced it, so without such a
  verdict it ends with an error. When the interval is positive and not longer than
  \<open>time.sleep\<close> takes, no progress report raises, and every check within the budget comes
  back without a verdict, the loop ends after exactly \<open>max_attempts\<close> checks and the task
  raises TimeoutError.
\<close>

theorem analyse_sample_bounded:
  "snd (analyse_sample upload env budget interval) \<le> nat (budget div interval) \<and>
   (fst (analyse_sample upload env budget interval) = Inr d \<longrightarrow>
      (\<exists>i < nat (budget div interval). analyseFile (status_check env i) = Inr (Some d))) \<and>
   ((\<forall>i < nat (budget div interval). \<forall>v. analyseFile (status_check env i) \<noteq> Inr (Some v)) \<longrightarrow>
      isl (fst (analyse_sample upload env budget interval))) \<and>
   (0 < interval \<and> interval \<le> sleep_max env \<and> (\<forall>k. \<not> update_state_raises env k) \<and>
    (\<forall>i < nat (budget div interval). analyseFile (status_check env i) = Inr None) \<longrightarrow>
      analyse_sample (Inr test_id) env budget interval =
        (Inl TimeoutError, nat (budget div interval)))"
proof (intro conjI impI)
  let ?mx = "budget div interval"
  show "snd (analyse_sample upload env budget interval) \<le> nat ?mx"
    by (rule analyse_sample_calls)
  show "\<exists>i < nat ?mx. analyseFile (status_check env i) = Inr (Some d)"
    if "fst (analyse_sample upload env budget interval) = Inr d"
    using that by (rule analyse_sample_verdict)
  show "isl (fst (analyse_sample upload env budget interval))"
    if none: "\<forall>i < nat ?mx. \<forall>v. analyseFile (status_check env i) \<noteq> Inr (Some v)"
  proof (cases "fst (analyse_sample upload env budget interval)")
    case (Inl e)
    then show ?thesis by simp
  next
    case (Inr v)
    then obtain i where "i < nat ?mx" "analyseFile (status_check env i) = Inr (Some v)"
      using analyse_sample_verdict by blast
    with none show ?thesis by blast
  qed
  show "analyse_sample (Inr test_id) env budget interval = (Inl TimeoutError, nat ?mx)"
    if h: "0 < interval \<and> interval \<le> sleep_max env \<and> (\<forall>k. \<not> update_state_raises env k) \<and>
           (\<forall>i < nat ?mx. analyseFile (status_check env i) = Inr None)"
  proof -
    have "poll env interval ?mx 0 0 2 = (Inr None, 0 + nat (?mx - 0), 2 + nat (?mx - 0))"
      using h by (intro poll_all_pending) simp_all
    then show ?thesis using h by (simp add: analyse_sample_def del: poll.simps)
  qed
qed

theorem analyse_sample_bounded_witness:
  "analyse_sample (Inr ''t1'') never_ready 30 10 = (Inl TimeoutError, 3) \<and>
   snd (analyse_sample (Inr ''t1'') never_ready 30 10) \<le> 3 \<and>
   isl (fst (analyse_sample (Inr ''t1'') never_ready 30 10))"
proof -
  have pending: "\<forall>i < nat (30 div 10). analyseFile (status_check never_ready i) = Inr None"
    by (simp add: never_ready_def analyseFile_def)
  have h: "(0::int) < 10 \<and> 10 \<le> sleep_max never_ready \<and>
           (\<forall>k. \<not> update_state_raises never_ready k) \<and>
           (\<forall>i < nat (30 div 10). analyseFile (status_check never_ready i) = Inr None)"
    using pending by (simp add: never_ready_def)
  have nov: "\<forall>i < nat (30 div 10). \<forall>v.
               analyseFile (status_check never_ready i) \<noteq> Inr (Some v)"
    using pending by simp
  from analyse_sample_bounded [where env = never_ready and budget = 30 and interval = 10
      and test_id = "''t1''" and upload = "Inr ''t1''"] h nov
  show ?thesis by simp
qed

text \<open>
  C5. The claim as written: every status that is neither 429 nor a success makes the
  status check raise; and after a 429 the loop waits and retries. Here a 304 answer whose
  body reports a queued analysis is taken as "not ready" and the task polls on to its
  timeout; and with the result backend down the task ends right after the first 429.
\<close>

theorem status_check_counterexample:
  "analyseFile (Response 304 (Analysis queued)) = Inr None \<and>
   analyse_sample (Inr ''t1'') not_modified_queued 30 10 = (Inl TimeoutError, 3) \<and>
   status_check backend_down_in_loop 0 = Response 429 NotJson \<and>
   analyseFile (status_check backend_down_in_loop 0) = Inr None \<and>
   analyse_sample (Inr ''t1'') backend_down_in_loop 600 10 = (Inl BackendError, 1)"
proof -
  have q: "analyseFile (Response 304 (Analysis queued)) = Inr None"
    by (simp add: analyseFile_def raise_for_status_def queued_def)
  have "poll not_modified_queued 10 3 0 0 2 = (Inr None, 0 + nat (3 - 0), 2 + nat (3 - 0))"
    by (rule poll_all_pending) (simp_all add: not_modified_queued_def q)
  then have a: "analyse_sample (Inr ''t1'') not_modified_queued 30 10 = (Inl TimeoutError, 3)"
    by (simp add: analyse_sample_def not_modified_queued_def del: poll.simps)
  have "poll backend_down_in_loop 10 60 0 0 2 = (Inl BackendError, 1, 3)"
    by (subst poll.simps) (simp add: backend_down_in_loop_def analyseFile_def)
  then have b: "analyse_sample (Inr ''t1'') backend_down_in_loop 600 10 = (Inl BackendError, 1)"
    by (simp add: analyse_sample_def backend_down_in_loop_def del: poll.simps)
  have c: "analyseFile (status_check backend_down_in_loop 0) = Inr None"
    by (simp add: backend_down_in_loop_def analyseFile_def)
  have d: "status_check backend_down_in_loop 0 = Response 429 NotJson"
    by (simp add: backend_down_in_loop_def)
  from q a b c d show ?thesis by blast
qed

text \<open>
  C5, amended. A 429 answer makes the status check return no data and no error; when the
  progress report and the sleep that follow do not raise, the loop goes round again with
  one more attempt used. Any other status from 400 to 599, the statuses on which
  \<open>raise_for_status\<close> raises, makes the status check raise VirusTotalAPIError, which ends
  the loop at once and fails the whole task, with no further check.
\<close>

theorem rate_limit_soft_other_status_fatal:
  "analyseFile (Response 429 body) = Inr None \<and>
   (attempts < max_attempts \<and> status_check env calls = Response 429 body \<and>
    \<not> update_state_raises env reports \<and> 0 \<le> interval \<and> interval \<le> sleep_max env \<longrightarrow>
      poll env interval max_attempts attempts calls reports =
        poll env interval max_attempts (attempts + 1) (Suc calls) (Suc reports)) \<and>
   (code \<noteq> 429 \<and> raise_for_status code \<longrightarrow>
      analyseFile (Response code body) = Inl VirusTotalAPIError) \<and>
   (code \<noteq> 429 \<and> raise_for_status code \<and> attempts < max_attempts \<and>
    status_check env calls = Response code body \<longrightarrow>
      poll env interval max_attempts attempts calls reports =
        (Inl VirusTotalAPIError, Suc calls, reports)) \<and>
   (0 < interval \<and> interval \<le> sleep_max env \<and> (\<forall>j. \<not> update_state_raises env j) \<and>
    k < nat (budget div interval) \<and>
    (\<forall>i < k. analyseFile (status_check env i) = Inr None) \<and>
    status_check env k = Response code body \<and> code \<noteq> 429 \<and> raise_for_status code \<longrightarrow>
      analyse_sample (Inr test_id) env budget interval = (Inl VirusTotalAPIError, Suc k))"
proof (intro conjI impI)
  show soft: "analyseFile (Response 429 body) = Inr None"
    by (simp add: analyseFile_def)
  show "poll env interval max_attempts attempts calls reports =
        poll env interval max_attempts (attempts + 1) (Suc calls) (Suc reports)"
    if "attempts < max_attempts \<and> status_check env calls = Response 429 body \<and>
        \<not> update_state_raises env reports \<and> 0 \<le> interval \<and> interval \<le> sleep_max env"
    using that soft by (intro poll_step) simp_all
  show fatal: "analyseFile (Response code body) = Inl VirusTotalAPIError"
    if "code \<noteq> 429 \<and> raise_for_status code"
    using that by (simp add: analyseFile_def)
  show "poll env interval max_attempts attempts calls reports =
          (Inl VirusTotalAPIError, Suc calls, reports)"
    if "code \<noteq> 429 \<and> raise_for_status code \<and> attempts < max_attempts \<and>
        status_check env calls = Response code body"
    using that fatal by (subst poll.simps) simp
  show "analyse_sample (Inr test_id) env budget interval = (Inl VirusTotalAPIError, Suc k)"
    if h: "0 < interval \<and> interval \<le> sleep_max env \<and> (\<forall>j. \<not> update_state_raises env j) \<and>
        k < nat (budget div interval) \<and>
        (\<forall>i < k. analyseFile (status_check env i) = Inr None) \<and>
        status_check env k = Response code body \<and> code \<noteq> 429 \<and> raise_for_status code"
  proof -
    let ?mx = "budget div interval"
    have kmx: "int k < ?mx" using h by linarith
    have "poll env interval ?mx 0 0 2 = poll env interval ?mx (0 + int k) (0 + k) (2 + k)"
    proof (rule poll_prefix)
      show "0 \<le> interval" using h by simp
      show "interval \<le> sleep_max env" using h by simp
      show "int k \<le> ?mx - 0" using kmx by simp
      show "analyseFile (status_check env i) = Inr None" if "0 \<le> i" and "i < 0 + k" for i
        using that h by simp
      show "\<not> update_state_raises env j" if "2 \<le> j" and "j < 2 + k" for j
        using h by simp
    qed
    also have "\<dots> = (Inl VirusTotalAPIError, Suc k, 2 + k)"
      using h fatal kmx by (subst poll.simps) simp
    finally show ?thesis using h by (simp add: analyse_sample_def del: poll.simps)
  qed
qed

theorem rate_limit_soft_other_status_fatal_witness:
  "analyse_sample (Inr ''t1'') rate_limited_then_500 600 10 = (Inl VirusTotalAPIError, 3)"
proof -
  have h: "(0::int) < 10 \<and> 10 \<le> sleep_max rate_limited_then_500 \<and>
           (\<forall>j. \<not> update_state_raises rate_limited_then_500 j) \<and>
           (2::nat) < nat (600 div 10) \<and>
           (\<forall>i < 2. analyseFile (status_check rate_limited_then_500 i) = Inr None) \<and>
           status_check rate_limited_then_500 2 = Response 500 NotJson \<and>
           (500::int) \<noteq> 429 \<and> raise_for_status 500"
    by (simp add: rate_limited_then_500_def analyseFile_def raise_for_status_def)
  from rate_limit_soft_other_status_fatal [where env = rate_limited_then_500 and k = 2
      and code = 500 and body = NotJson and interval = 10 and budget = 600
      and test_id = "''t1''"] h
  show ?thesis by simp
qed

section \<open>Get-or-create: properties\<close>

lemma select_id_absent: "rows_for t v = 0 \<Longrightarrow> select_id t v = None"
  by (auto simp: rows_for_def select_id_def find_None_iff filter_empty_conv)

lemma find_append_fresh:
  "filter P xs = [] \<Longrightarrow> P x \<Longrightarrow> find P (xs @ [x]) = Some x"
  by (induction xs) (auto split: if_splits)

lemma get_or_create_quiet_absent:
  assumes "rows_for t v = 0"
  shows "get_or_create quiet t v =
           (Inr (next_id t), t\<lparr>rows := rows t @ [(next_id t, v)], next_id := next_id t + 1\<rparr>)"
proof -
  have none: "select_id t v = None" using assms by (rule select_id_absent)
  have empty: "filter (\<lambda>r. snd r = v) (rows t) = []" using assms by (simp add: rows_for_def)
  then have notin: "v \<notin> snd ` set (rows t)" by (auto simp: filter_empty_conv)
  let ?t2 = "t\<lparr>rows := rows t @ [(next_id t, v)], next_id := next_id t + 1\<rparr>"
  have ins: "insert_row t v = Inr ?t2" using notin by (simp add: insert_row_def)
  have sel: "select_id ?t2 v = Some (next_id t)"
    using find_append_fresh [of "\<lambda>r. snd r = v" "rows t" "(next_id t, v)"] empty
    by (simp add: select_id_def)
  show ?thesis
    by (simp add: get_or_create_def get_connection_def get_or_create_body_def quiet_def
        none ins sel)
qed

lemma get_or_create_quiet_present:
  assumes "select_id t v = Some i"
  shows "get_or_create quiet t v = (Inr i, t)"
  using assms
  by (simp add: get_or_create_def get_connection_def get_or_create_body_def quiet_def)

lemma select_id_present: "rows_for t v \<noteq> 0 \<Longrightarrow> \<exists>i. select_id t v = Some i"
proof -
  assume "rows_for t v \<noteq> 0"
  then have "filter (\<lambda>r. snd r = v) (rows t) \<noteq> []" by (simp add: rows_for_def)
  then have "\<exists>r \<in> set (rows t). snd r = v" by (simp add: filter_empty_conv)
  then have "find (\<lambda>r. snd r = v) (rows t) \<noteq> None" by (simp only: find_None_iff) blast
  then show ?thesis by (auto simp: select_id_def)
qed

text \<open>
  C6. The claim as written: a unique-constraint violation on the insert is taken as
  "already exists" and the identifier is looked up again. Here another worker commits the
  same value between this call's SELECT and its INSERT, on a table with the unique
  constraint: the INSERT raises IntegrityError, the value is in the table under
  identifier 1, and the call ends with an exception.
\<close>

theorem get_or_create_violation_counterexample:
  "get_or_create
     \<lparr>connect_error = None, before_insert = racing_insert ''chrome'',
      before_reselect = id\<rparr>
     \<lparr>rows = [], next_id = 1, unique_col = True\<rparr> ''chrome''
   = (Inl (App DatabaseConnectionError),
      \<lparr>rows = [(1, ''chrome'')], next_id = 2, unique_col = True\<rparr>) \<and>
   insert_row \<lparr>rows = [(1, ''chrome'')], next_id = 2, unique_col = True\<rparr> ''chrome''
   = Inl IntegrityError \<and>
   select_id \<lparr>rows = [(1, ''chrome'')], next_id = 2, unique_col = True\<rparr> ''chrome'' = Some 1"
  by (simp add: get_or_create_def get_connection_def get_or_create_body_def
      racing_insert_def insert_row_def select_id_def)

text \<open>
  C6, amended. With no other connection writing meanwhile and a table holding at most one
  row for the value, two calls in a row return the same identifier, the second changes
  nothing, and the table then holds exactly one row for the value. When the INSERT of a
  call raises (a unique-constraint violation included), the call ends with an exception
  for its caller and makes no second lookup: the table is left as the INSERT found it.
\<close>

theorem get_or_create_idempotent:
  "(rows_for t v \<le> 1 \<longrightarrow>
      (\<exists>i t1. get_or_create quiet t v = (Inr i, t1) \<and>
              get_or_create quiet t1 v = (Inr i, t1) \<and>
              rows_for t1 v = 1)) \<and>
   (connect_error env = None \<and> select_id t v = None \<and>
    insert_row (before_insert env t) v = Inl e \<longrightarrow>
      (\<exists>x. get_or_create env t v = (Inl x, before_insert env t)))"
proof (intro conjI impI)
  assume le: "rows_for t v \<le> 1"
  show "\<exists>i t1. get_or_create quiet t v = (Inr i, t1) \<and>
              get_or_create quiet t1 v = (Inr i, t1) \<and> rows_for t1 v = 1"
  proof (cases "rows_for t v = 0")
    case True
    let ?t1 = "t\<lparr>rows := rows t @ [(next_id t, v)], next_id := next_id t + 1\<rparr>"
    have first: "get_or_create quiet t v = (Inr (next_id t), ?t1)"
      using True by (rule get_or_create_quiet_absent)
    have empty: "filter (\<lambda>r. snd r = v) (rows t) = []" using True by (simp add: rows_for_def)
    have sel: "select_id ?t1 v = Some (next_id t)"
      using find_append_fresh [of "\<lambda>r. snd r = v" "rows t" "(next_id t, v)"] empty
      by (simp add: select_id_def)
    have second: "get_or_create quiet ?t1 v = (Inr (next_id t), ?t1)"
      using sel by (rule get_or_create_quiet_present)
    have one: "rows_for ?t1 v = 1" using empty by (simp add: rows_for_def)
    from first second one show ?thesis by blast
  next
    case False
    then obtain i where sel: "select_id t v = Some i" using select_id_present by blast
    have call: "get_or_create quiet t v = (Inr i, t)"
      using sel by (rule get_or_create_quiet_present)
    have "rows_for t v = 1" using False le by simp
    with call show ?thesis by blast
  qed
next
  assume "connect_error env = None \<and> select_id t v = None \<and>
          insert_row (before_insert env t) v = Inl e"
  then show "\<exists>x. get_or_create env t v = (Inl x, before_insert env t)"
    by (simp add: get_or_create_def get_connection_def get_or_create_body_def)
qed

theorem get_or_create_idempotent_witness:
  "get_or_create quiet \<lparr>rows = [], next_id = 1, unique_col = True\<rparr> ''chrome''
     = (Inr 1, \<lparr>rows = [(1, ''chrome'')], next_id = 2, unique_col = True\<rparr>) \<and>
   get_or_create quiet \<lparr>rows = [(1, ''chrome'')], next_id = 2, unique_col = True\<rparr> ''chrome''
     = (Inr 1, \<lparr>rows = [(1, ''chrome'')], next_id = 2, unique_col = True\<rparr>) \<and>
   isl (fst (get_or_create
     \<lparr>connect_error = None, before_insert = racing_insert ''chrome'',
      before_reselect = (\<lambda>t. t)\<rparr>
     \<lparr>rows = [], next_id = 1, unique_col = True\<rparr> ''chrome'')) \<and>
   snd (get_or_create
     \<lparr>connect_error = None, before_insert = racing_insert ''chrome'',
      before_reselect = (\<lambda>t. t)\<rparr>
     \<lparr>rows = [], next_id = 1, unique_col = True\<rparr> ''chrome'')
   = \<lparr>rows = [(1, ''chrome'')], next_id = 2, unique_col = True\<rparr>"
proof -
  let ?t0 = "\<lparr>rows = [], next_id = 1, unique_col = True\<rparr>"
  let ?t1 = "\<lparr>rows = [(1, ''chrome'')], next_id = 2, unique_col = True\<rparr>"
  let ?env = "\<lparr>connect_error = None, before_insert = racing_insert ''chrome'',
               before_reselect = (\<lambda>t. t)\<rparr>"
  have le: "rows_for ?t0 ''chrome'' \<le> 1" by (simp add: rows_for_def)
  have first: "get_or_create quiet ?t0 ''chrome'' = (Inr 1, ?t1)"
    by (simp add: get_or_create_def get_connection_def get_or_create_body_def quiet_def
        insert_row_def select_id_def)
  from get_or_create_idempotent [where t = ?t0 and v = "''chrome''"] le
  obtain i t1 where "get_or_create quiet ?t0 ''chrome'' = (Inr i, t1)"
    and again: "get_or_create quiet t1 ''chrome'' = (Inr i, t1)" by blast
  with first have "i = 1" and "t1 = ?t1" by simp_all
  with again have second: "get_or_create quiet ?t1 ''chrome'' = (Inr 1, ?t1)" by simp
  have hyp: "connect_error ?env = None \<and> select_id ?t0 ''chrome'' = None \<and>
             insert_row (before_insert ?env ?t0) ''chrome'' = Inl IntegrityError"
    by (simp add: select_id_def racing_insert_def insert_row_def)
  have bi: "before_insert ?env ?t0 = ?t1" by (simp add: racing_insert_def insert_row_def)
  from get_or_create_idempotent [where env = ?env and t = ?t0 and v = "''chrome''"
      and e = IntegrityError] hyp
  obtain x where third: "get_or_create ?env ?t0 ''chrome'' = (Inl x, before_insert ?env ?t0)"
    by blast
  from first second third bi show ?thesis by simp
qed

section \<open>Downloader: properties\<close>



lemma download_except_failure: "\<exists>msg. download_except e = Inr (msg, None, True)"
  by (simp add: download_except_def)



lemma example_good_file_name:
  "get_file_name posix_like good_response ''http://host/setup.exe'' = ''setup.exe''"
  by (simp add: get_file_name_def good_response_def posix_like_def)

lemma digit_char_1: "digit_char (Suc 0) = CHR ''1''"
  unfolding digit_char_def by code_simp

lemma show_nat_1: "show_nat (Suc 0) = ''1''"
  by (subst show_nat.simps) (simp add: digit_char_1 del: show_nat.simps)

lemma numbered_setup_1: "numbered ''setup'' (Suc 0) = ''setup(1).zip''"
  by (simp add: numbered_def show_nat_1 del: show_nat.simps)

lemma example_unique_path:
  "get_unique_file_path posix_like [''setup.zip''] ''setup.exe'' = ''setup(1).zip''"
proof -
  have "unique_loop [''setup.zip''] ''setup'' (Suc 0) = ''setup(1).zip''"
    by (subst unique_loop.simps) (simp add: numbered_setup_1 del: unique_loop.simps)
  then show ?thesis
    by (simp add: get_unique_file_path_def posix_like_def del: unique_loop.simps)
qed




text \<open>
  C10. Whatever the HTTP transport answers or raises and whatever raises while the archive
  is written, \<open>download_file\<close> hands back a triple and no exception: either a message with
  no path and the error flag set, or, when the request and the writing both went through,
  the success message with the archive's path, which is then in the folder, and the error
  flag clear.
\<close>

theorem download_file_total:
  "(\<exists>msg fs'. download_file plat env fs url = (Inr (msg, None, True), fs')) \<or>
   (\<exists>resp file_path.
      http_get env url = Inr resp \<and>
      file_path = get_unique_file_path plat fs (get_file_name plat resp url) \<and>
      download_file plat env fs url =
        (Inr (''File successfully downloaded'', Some file_path, False), file_path # fs))"
proof (cases "download_try plat env fs url")
  case (Pair r fs')
  show ?thesis
  proof (cases r)
    case (Inl e)
    obtain msg where "download_except e = Inr (msg, None, True)"
      using download_except_failure by blast
    with Pair Inl have "download_file plat env fs url = (Inr (msg, None, True), fs')"
      by (simp add: download_file_def)
    then show ?thesis by blast
  next
    case (Inr res)
    with Pair have ok: "download_try plat env fs url = (Inr res, fs')" by simp
    then obtain resp where get: "http_get env url = Inr resp"
      by (cases "http_get env url") (simp_all add: download_try_def)
    let ?p = "get_unique_file_path plat fs (get_file_name plat resp url)"
    have "res = (''File successfully downloaded'', Some ?p, False) \<and> fs' = ?p # fs"
      using ok get
      by (auto simp: download_try_def Let_def write_archive_def unlink_if_exists_def
          split: if_splits option.splits sum.splits prod.splits)
    with ok get have "download_file plat env fs url =
        (Inr (''File successfully downloaded'', Some ?p, False), ?p # fs)"
      by (simp add: download_file_def)
    with get show ?thesis by blast
  qed
qed


theorem download_file_total_witness:
  "download_file posix_like good_env [''setup.zip''] ''http://host/setup.exe'' =
     (Inr (''File successfully downloaded'', Some ''setup(1).zip'', False),
      [''setup(1).zip'', ''setup.zip''])"
proof -
  let ?url = "''http://host/setup.exe''"
  have get: "http_get good_env ?url = Inr good_response" by (simp add: good_env_def)
  have not_failed:
    "\<not> (\<exists>msg fs'. download_file posix_like good_env [''setup.zip''] ?url =
            (Inr (msg, None, True), fs'))"
    by (simp add: download_file_def download_try_def Let_def get write_archive_def
        good_env_def good_response_def raise_for_status_def)
  from download_file_total [of posix_like good_env "[''setup.zip'']" ?url] not_failed
  obtain resp file_path where
      "http_get good_env ?url = Inr resp"
      "file_path = get_unique_file_path posix_like [''setup.zip'']
                     (get_file_name posix_like resp ?url)"
      "download_file posix_like good_env [''setup.zip''] ?url =
         (Inr (''File successfully downloaded'', Some file_path, False),
          file_path # [''setup.zip''])"
    by blast
  then show ?thesis
    by (simp add: get example_good_file_name example_unique_path del: unique_loop.simps)
qed

section \<open>Item attempt and persistence: properties\<close>

lemma validate_12_MB: "validate_file_size 20 ''12 MB'' = Inr True"
  by code_simp

lemma validate_25_MB:
  "validate_file_size 20 ''25 MB'' = Inl (DownloadFileTooLargeError ''25 MB'' 20)"
  by code_simp

lemmas item_eval =
  attempt_def get_parsed_file_info_def parse_file_info_def cleared_data_def strip_def
  isspace_def py_index_def validate_12_MB validate_25_MB fresh_item_def Let_def

lemma attempt_example:
  "attempt 20 show_limit example_item =
     \<lparr>file_title = Some ''Setup crack'', file_extension = Some ''ZIP'', file_size = Some ''12 MB'',
      download_info = Some ''File successfully downloaded'', download_path = Some ''dl/setup.zip'',
      download_exception = Some False, hash_value = Some ''ab12'',
      size_exception = None, timeout_exception = None\<rparr>"
  by (simp add: item_eval example_item_def)

lemma attempt_hash_insert_fails:
  "attempt 20 show_limit hash_insert_fails_item =
     \<lparr>file_title = Some ''Setup crack'', file_extension = Some ''ZIP'', file_size = Some ''12 MB'',
      download_info = Some ''File successfully downloaded'', download_path = Some ''dl/setup.zip'',
      download_exception = Some False, hash_value = Some ''ab12'',
      size_exception = None, timeout_exception = None\<rparr>"
  by (simp add: item_eval hash_insert_fails_item_def example_item_def)

lemma attempt_oversized:
  "attempt 20 show_limit oversized_item =
     \<lparr>file_title = Some ''Setup crack'', file_extension = Some ''ZIP'', file_size = Some ''25 MB'',
      download_info = None, download_path = None,
      download_exception = None, hash_value = None,
      size_exception = Some ''File size 25 MB exceeds maximum allowed size of 20.0 MB'',
      timeout_exception = None\<rparr>"
  by (simp add: item_eval oversized_item_def example_item_def str_of_size_error_def show_limit_def)

lemma crawl_example:
  "crawl_item 20 show_limit posix_like example_item =
     [InsertHash ''ab12'',
      InsertCrack (Some ''Setup crack'') (Some ''12 MB'') (Some ''ZIP'') (Some ''setup.zip'') (Some 7)]"
  by (simp only: crawl_item_def attempt_example)
     (simp add: persist_def insert_crack_and_errors_def error_messages_def truthy_def
        posix_like_def example_item_def)

lemma crawl_hash_insert_fails:
  "crawl_item 20 show_limit posix_like hash_insert_fails_item = [InsertHash ''ab12'']"
  by (simp only: crawl_item_def attempt_hash_insert_fails)
     (simp add: persist_def hash_insert_fails_item_def example_item_def)

lemma crawl_oversized:
  "crawl_item 20 show_limit posix_like oversized_item =
     [InsertCrack (Some ''Setup crack'') (Some ''25 MB'') (Some ''ZIP'') None None,
      InsertError ''File size 25 MB exceeds maximum allowed size of 20.0 MB'' 31]"
  by (simp only: crawl_item_def attempt_oversized)
     (simp add: persist_def insert_crack_and_errors_def error_messages_def truthy_def
        oversized_item_def example_item_def)

lemma attempt_flags: "flags_set (attempt mx fmt env) \<le> 1"
  by (auto simp: attempt_def flags_set_def truthy_def fresh_item_def Let_def
      split: sum.splits browser_exn.splits prod.splits resolution.splits option.splits)

lemma insert_errors_count:
  "length (filter is_insert_error (insert_errors raises k cid ms))
     \<le> length (filter (\<lambda>m. m \<noteq> None) ms)"
  by (induction raises k cid ms rule: insert_errors.induct) auto

lemma error_messages_count:
  "length (filter (\<lambda>m. m \<noteq> None) (error_messages st)) \<le> flags_set st"
  by (simp add: error_messages_def flags_set_def truthy_def)

lemma insert_crack_and_errors_errors:
  "length (filter is_insert_error (insert_crack_and_errors env st z h)) \<le> flags_set st"
proof (cases "insert_crack_result env")
  case (Inl e)
  then show ?thesis by (simp add: insert_crack_and_errors_def)
next
  case (Inr cid)
  have "length (filter is_insert_error
          (insert_errors (insert_error_raises env) 0 cid (error_messages st))) \<le> flags_set st"
    using insert_errors_count error_messages_count by (rule order_trans)
  with Inr show ?thesis by (simp add: insert_crack_and_errors_def)
qed

lemma persist_errors: "length (filter is_insert_error (persist plat env st)) \<le> flags_set st"
  using insert_crack_and_errors_errors [of env st]
  by (auto simp: persist_def split: option.splits sum.splits)

lemma insert_errors_no_crack: "filter is_insert_crack (insert_errors raises k cid ms) = []"
  by (induction raises k cid ms rule: insert_errors.induct) auto

lemma insert_crack_and_errors_cracks:
  "filter is_insert_crack (insert_crack_and_errors env st z h) =
     [InsertCrack (file_title st) (file_size st) (file_extension st) z h]"
  by (simp add: insert_crack_and_errors_def insert_errors_no_crack split: sum.splits)

lemma persist_populated:
  assumes "populated st"
  shows "\<exists>p h. download_path st = Some p \<and> hash_value st = Some h \<and> h \<noteq> [] \<and>
           persist plat env st =
             InsertHash h #
               (case insert_hash_result env of
                  Inl e \<Rightarrow> []
                | Inr i \<Rightarrow> insert_crack_and_errors env st (Some (basename plat p)) (Some i))"
  using assms by (auto simp: populated_def truthy_def persist_def split: option.splits)

lemma persist_not_populated:
  assumes "\<not> populated st"
  shows "persist plat env st = insert_crack_and_errors env st None None"
  using assms by (auto simp: populated_def truthy_def persist_def split: option.splits)

lemma persist_cracks:
  "filter is_insert_crack (persist plat env st) =
     (if populated st
      then (case insert_hash_result env of
              Inl e \<Rightarrow> []
            | Inr i \<Rightarrow>
                [InsertCrack (file_title st) (file_size st) (file_extension st)
                   (map_option (basename plat) (download_path st)) (Some i)])
      else [InsertCrack (file_title st) (file_size st) (file_extension st) None None])"
proof (cases "populated st")
  case True
  from persist_populated [OF True, of plat env] obtain p h where
    "download_path st = Some p" and
    "persist plat env st =
       InsertHash h #
         (case insert_hash_result env of
            Inl e \<Rightarrow> []
          | Inr i \<Rightarrow> insert_crack_and_errors env st (Some (basename plat p)) (Some i))"
    by blast
  with True show ?thesis
    by (simp add: insert_crack_and_errors_cracks split: sum.splits)
next
  case False
  then show ?thesis
    by (simp add: persist_not_populated insert_crack_and_errors_cracks)
qed

lemma populated_attempt:
  assumes "populated (attempt mx fmt env)"
  shows "\<exists>link info p flag h.
           detail env = Resolved link \<and> download env link = (info, Some p, flag) \<and>
           sha256_of env p = Some h \<and> h \<noteq> []"
  using assms
  by (auto simp: attempt_def populated_def truthy_def fresh_item_def Let_def
      split: sum.splits browser_exn.splits prod.splits resolution.splits option.splits)

text \<open>
  C1. The claim as written: every item attempt performs exactly one CrackRecord insert.
  Here the download and the hash succeed and \<open>insert_hash\<close> raises: the \<open>finally\<close> block
  is left through its handler before \<open>insert_crack\<close> is reached.
\<close>

theorem crawl_item_one_crack_counterexample:
  "populated (attempt 20 show_limit hash_insert_fails_item) \<and>
   crawl_item 20 show_limit posix_like hash_insert_fails_item = [InsertHash ''ab12''] \<and>
   filter is_insert_crack (crawl_item 20 show_limit posix_like hash_insert_fails_item) = []"
  by (simp only: crawl_hash_insert_fails attempt_hash_insert_fails)
     (simp add: populated_def truthy_def)

text \<open>
  C1, amended. An item attempt performs at most one CrackRecord insert: exactly one,
  except when the download gave a path, a hash was computed and \<open>insert_hash\<close> raised, where
  it performs none. The insert carries an archive name and a hash identifier exactly when
  the download gave a path and a hash was computed (which needs the size gate and the
  detail resolution to have passed), and carries neither otherwise.
\<close>

theorem crawl_item_crack_insert:
  "length (filter is_insert_crack (crawl_item mx fmt plat env)) =
     (if populated (attempt mx fmt env) \<and> isl (insert_hash_result env) then 0 else 1) \<and>
   (\<forall>t s e z h. InsertCrack t s e z h \<in> set (crawl_item mx fmt plat env) \<longrightarrow>
      (z \<noteq> None \<longleftrightarrow> populated (attempt mx fmt env)) \<and>
      (h \<noteq> None \<longleftrightarrow> populated (attempt mx fmt env))) \<and>
   (populated (attempt mx fmt env) \<longrightarrow>
      (\<exists>link info p flag hv.
         detail env = Resolved link \<and> download env link = (info, Some p, flag) \<and>
         sha256_of env p = Some hv \<and> hv \<noteq> []))"
proof (intro conjI allI impI)
  let ?st = "attempt mx fmt env"
  show "length (filter is_insert_crack (crawl_item mx fmt plat env)) =
          (if populated ?st \<and> isl (insert_hash_result env) then 0 else 1)"
    by (simp add: crawl_item_def persist_cracks split: sum.splits)
  show "\<exists>link info p flag hv.
          detail env = Resolved link \<and> download env link = (info, Some p, flag) \<and>
          sha256_of env p = Some hv \<and> hv \<noteq> []"
    if "populated ?st"
    using that by (rule populated_attempt)
  fix t s e z h
  assume "InsertCrack t s e z h \<in> set (crawl_item mx fmt plat env)"
  then have "InsertCrack t s e z h \<in> set (filter is_insert_crack (persist plat env ?st))"
    by (simp add: crawl_item_def)
  then have zh: "(z \<noteq> None \<longleftrightarrow> populated ?st) \<and> (h \<noteq> None \<longleftrightarrow> populated ?st)"
    by (auto simp: persist_cracks populated_def split: if_splits sum.splits)
  from zh show "(z \<noteq> None) = populated ?st" by blast
  from zh show "(h \<noteq> None) = populated ?st" by blast
qed

theorem crawl_item_crack_insert_witness:
  "length (filter is_insert_crack (crawl_item 20 show_limit posix_like oversized_item)) = 1 \<and>
   length (filter is_insert_crack (crawl_item 20 show_limit posix_like example_item)) = 1 \<and>
   length (filter is_insert_crack (crawl_item 20 show_limit posix_like hash_insert_fails_item)) = 0 \<and>
   InsertCrack (Some ''Setup crack'') (Some ''12 MB'') (Some ''ZIP'') (Some ''setup.zip'') (Some 7)
     \<in> set (crawl_item 20 show_limit posix_like example_item) \<and>
   populated (attempt 20 show_limit example_item) \<and>
   detail example_item = Resolved ''http://host/setup.exe''"
proof -
  have p1: "\<not> populated (attempt 20 show_limit oversized_item)"
    by (simp only: attempt_oversized) (simp add: populated_def)
  have p2: "populated (attempt 20 show_limit example_item)"
    by (simp only: attempt_example) (simp add: populated_def truthy_def)
  have p3: "populated (attempt 20 show_limit hash_insert_fails_item)"
    by (simp only: attempt_hash_insert_fails) (simp add: populated_def truthy_def)
  have h2: "\<not> isl (insert_hash_result example_item)" by (simp add: example_item_def)
  have h3: "isl (insert_hash_result hash_insert_fails_item)"
    by (simp add: hash_insert_fails_item_def)
  have a: "length (filter is_insert_crack (crawl_item 20 show_limit posix_like oversized_item)) = 1"
    using crawl_item_crack_insert [of 20 show_limit posix_like oversized_item] p1 by simp
  have b: "length (filter is_insert_crack (crawl_item 20 show_limit posix_like example_item)) = 1"
    using crawl_item_crack_insert [of 20 show_limit posix_like example_item] h2 by simp
  have c: "length (filter is_insert_crack
             (crawl_item 20 show_limit posix_like hash_insert_fails_item)) = 0"
    using crawl_item_crack_insert [of 20 show_limit posix_like hash_insert_fails_item] p3 h3
    by simp
  have d: "InsertCrack (Some ''Setup crack'') (Some ''12 MB'') (Some ''ZIP'') (Some ''setup.zip'')
             (Some 7) \<in> set (crawl_item 20 show_limit posix_like example_item)"
    by (simp only: crawl_example) simp
  have e: "detail example_item = Resolved ''http://host/setup.exe''"
    by (simp add: example_item_def)
  from a b c d p2 e show ?thesis by blast
qed

text \<open>
  C9. When the \<open>finally\<close> block of an item attempt runs, at most one of the three failure
  flags (download error, timeout, size rejection) is set, and the block makes at most one
  \<open>insert_error\<close> call.
\<close>

theorem crawl_item_one_failure_category:
  "flags_set (attempt mx fmt env) \<le> 1 \<and>
   length (filter is_insert_error (crawl_item mx fmt plat env)) \<le> 1"
proof
  show "flags_set (attempt mx fmt env) \<le> 1" by (rule attempt_flags)
  have "length (filter is_insert_error (persist plat env (attempt mx fmt env)))
          \<le> flags_set (attempt mx fmt env)"
    by (rule persist_errors)
  also have "\<dots> \<le> 1" by (rule attempt_flags)
  finally show "length (filter is_insert_error (crawl_item mx fmt plat env)) \<le> 1"
    by (simp add: crawl_item_def)
qed

theorem crawl_item_one_failure_category_witness:
  "flags_set (attempt 20 show_limit oversized_item) = 1 \<and>
   length (filter is_insert_error (crawl_item 20 show_limit posix_like oversized_item)) = 1"
proof -
  have a: "flags_set (attempt 20 show_limit oversized_item) \<ge> 1"
    by (simp only: attempt_oversized) (simp add: flags_set_def truthy_def)
  have b: "length (filter is_insert_error (crawl_item 20 show_limit posix_like oversized_item)) \<ge> 1"
    by (simp only: crawl_oversized) simp
  from crawl_item_one_failure_category [of 20 show_limit oversized_item posix_like] a b
  show ?thesis by simp
qed

end
